theory Spec2Isabelle
  imports Complex_Main "HOL-Library.Word"
begin

section \<open>core/funding.go: the funding algebra\<close>

text \<open>
  Amounts are Go \<open>uint64\<close>: 64-bit words, on which \<open>+\<close> and \<open>-\<close> wrap around as
  in Go. Accounts and assets are Go strings. Go errors are modelled by their message.
\<close>

type_synonym u64 = "64 word"

record FundingPart =
  Amount :: u64
  Account :: string

record Funding =
  Asset :: string
  Parts :: "FundingPart list"
  Infinite :: bool

text \<open>
  \<open>Funding.Equals\<close>: the asset test, the length test, then the loop over the indices of
  \<open>lhs.Parts\<close> that returns false at the first differing part.
\<close>

definition Equals :: "Funding \<Rightarrow> Funding \<Rightarrow> bool" where
  "Equals lhs rhs =
     (if Asset lhs \<noteq> Asset rhs then False
      else if length (Parts lhs) \<noteq> length (Parts rhs) then False
      else list_all (\<lambda>i. \<not> (Parts lhs ! i \<noteq> Parts rhs ! i)) [0..<length (Parts lhs)])"

text \<open>
  The first loop of \<open>Take\<close> and \<open>TakeMax\<close> (the two bodies are the same text). The state
  is \<open>remaining_to_withdraw\<close>, the index \<open>i\<close>, \<open>result.Parts\<close> and
  \<open>remainder.Parts\<close>; \<open>append\<close> adds at the end.
\<close>

function take_loop ::
  "FundingPart list \<Rightarrow> u64 \<Rightarrow> nat \<Rightarrow> FundingPart list \<Rightarrow> FundingPart list
     \<Rightarrow> u64 \<times> nat \<times> FundingPart list \<times> FundingPart list" where
  "take_loop ps remaining_to_withdraw i result remainder =
     (if 0 < remaining_to_withdraw \<and> i < length ps then
        (let amt_to_withdraw = Amount (ps ! i) in
         if amt_to_withdraw > remaining_to_withdraw then
           (let rem = amt_to_withdraw - remaining_to_withdraw;
                amt_to_withdraw' = remaining_to_withdraw;
                remainder' = remainder @ [\<lparr>Amount = rem, Account = Account (ps ! i)\<rparr>]
            in take_loop ps (remaining_to_withdraw - amt_to_withdraw') (i + 1)
                 (result @ [\<lparr>Amount = amt_to_withdraw', Account = Account (ps ! i)\<rparr>])
                 remainder')
         else
           take_loop ps (remaining_to_withdraw - amt_to_withdraw) (i + 1)
             (result @ [\<lparr>Amount = amt_to_withdraw, Account = Account (ps ! i)\<rparr>])
             remainder)
      else (remaining_to_withdraw, i, result, remainder))"
  by pat_completeness auto
termination
  by (relation "measure (\<lambda>(ps, r, i, res, rmd). length ps - i)") auto

text \<open>The second loop: the parts from index \<open>i\<close> on are copied to the remainder.\<close>

function copy_loop :: "FundingPart list \<Rightarrow> nat \<Rightarrow> FundingPart list \<Rightarrow> FundingPart list" where
  "copy_loop ps i remainder =
     (if i < length ps then
        copy_loop ps (i + 1)
          (remainder @ [\<lparr>Amount = Amount (ps ! i), Account = Account (ps ! i)\<rparr>])
      else remainder)"
  by pat_completeness auto
termination
  by (relation "measure (\<lambda>(ps, i, rmd). length ps - i)") auto

declare take_loop.simps [simp del] copy_loop.simps [simp del]

definition Take :: "Funding \<Rightarrow> u64 \<Rightarrow> string + (Funding \<times> Funding)" where
  "Take f amount =
     (case take_loop (Parts f) amount 0 [] [] of
        (remaining_to_withdraw, i, result_parts, remainder_parts) \<Rightarrow>
          (let remainder = \<lparr>Asset = Asset f, Parts = copy_loop (Parts f) i remainder_parts,
                            Infinite = (if Infinite f then True else False)\<rparr>
           in if remaining_to_withdraw \<noteq> 0 then
                (if Infinite f then
                   Inr (\<lparr>Asset = Asset f,
                         Parts = result_parts @
                           [\<lparr>Amount = remaining_to_withdraw, Account = ''world''\<rparr>],
                         Infinite = False\<rparr>, remainder)
                 else Inl ''insufficient funding'')
              else Inr (\<lparr>Asset = Asset f, Parts = result_parts, Infinite = False\<rparr>,
                        remainder)))"

definition TakeMax :: "Funding \<Rightarrow> u64 \<Rightarrow> Funding \<times> Funding" where
  "TakeMax f amount =
     (case take_loop (Parts f) amount 0 [] [] of
        (remaining_to_withdraw, i, result_parts, remainder_parts) \<Rightarrow>
          (let remainder = \<lparr>Asset = Asset f, Parts = copy_loop (Parts f) i remainder_parts,
                            Infinite = (if Infinite f then True else False)\<rparr>
           in if remaining_to_withdraw \<noteq> 0 \<and> Infinite f then
                (\<lparr>Asset = Asset f,
                  Parts = result_parts @
                    [\<lparr>Amount = remaining_to_withdraw, Account = ''world''\<rparr>],
                  Infinite = False\<rparr>, remainder)
              else (\<lparr>Asset = Asset f, Parts = result_parts, Infinite = False\<rparr>,
                    remainder)))"

text \<open>
  \<open>Concat\<close>. \<open>res.Parts\<close> starts as the slice \<open>f.Parts\<close> itself, so the in-place
  \<open>+=\<close> on its last part also writes into the array behind \<open>f.Parts\<close>; the model
  returns \<open>res\<close> only, which is all its callers read afterwards.
\<close>

definition Concat :: "Funding \<Rightarrow> Funding \<Rightarrow> string + Funding" where
  "Concat f other =
     (if Asset f \<noteq> Asset other then Inl ''tried to concat different assets''
      else
        (let res = \<lparr>Asset = Asset f, Parts = Parts f,
                    Infinite = (Infinite f \<or> Infinite other)\<rparr>
         in if \<not> Infinite f then
              (if length (Parts res) > 0 \<and> length (Parts other) > 0 \<and>
                  Account (Parts res ! (length (Parts res) - 1)) = Account (Parts other ! 0)
               then
                 (let k = length (Parts res) - 1;
                      merged = (Parts res)[k := (Parts res ! k)
                                 \<lparr>Amount := Amount (Parts res ! k) + Amount (Parts other ! 0)\<rparr>]
                  in Inr (res\<lparr>Parts := merged @ drop 1 (Parts other)\<rparr>))
               else Inr (res\<lparr>Parts := Parts res @ Parts other\<rparr>))
            else Inr res))"

text \<open>\<open>Total\<close>: the loop \<open>total += part.Amount\<close> from 0, in \<open>uint64\<close>.\<close>

definition Total :: "Funding \<Rightarrow> string + u64" where
  "Total f =
     (if Infinite f then Inl ''tried to calculate total of infinite funding''
      else Inr (foldl (\<lambda>total' part. total' + Amount part) 0 (Parts f)))"

text \<open>\<open>Reverse\<close>: the loop appends \<open>f.Parts[i]\<close> for \<open>i\<close> from the last index down to 0.\<close>

definition Reverse :: "Funding \<Rightarrow> string + Funding" where
  "Reverse f =
     (if Infinite f then Inl ''tried to reverse an infinite funding''
      else Inr \<lparr>Asset = Asset f, Parts = rev (Parts f), Infinite = False\<rparr>)"


section \<open>Values, programs and the machine state\<close>

text \<open>
  Modelled from the spec: the declarations of \<open>core.Value\<close> and its variants, of
  \<open>program.Program\<close>, \<open>program.Resource\<close> and of \<open>ledger.Posting\<close> are not under
  src. Section 3 of the spec gives the eight variants of a value, with \<open>Number\<close> and the
  amount of a \<open>Monetary\<close> a \<open>u64\<close>, a portion as an optional rational with a
  \<open>remaining\<close> flag, an allotment as a sequence of rationals, and a resource as a
  constant, a parameter or a metadata entry; an address is a 16-bit index.
\<close>

type_synonym byte = "8 word"
type_synonym Address = "16 word"

record Monetary =
  Monetary_Asset :: string
  Monetary_Amount :: u64

record Portion =
  Specific :: "rat option"
  Remaining :: bool

type_synonym Allotment = "rat list"

datatype Value =
    V_Account string
  | V_Asset string
  | V_Number u64
  | V_String string
  | V_Monetary Monetary
  | V_Portion Portion
  | V_Allotment Allotment
  | V_Funding Funding

datatype ValueType =
    TYPE_ACCOUNT | TYPE_ASSET | TYPE_NUMBER | TYPE_STRING
  | TYPE_MONETARY | TYPE_PORTION | TYPE_ALLOTMENT | TYPE_FUNDING

datatype Resource =
    Constant Value
  | Parameter ValueType string
  | Metadata ValueType Address string

text \<open>
  \<open>ledger.Posting\<close>; its amount is the \<open>int64\<close> conversion of the part's amount, the
  same 64 bits.
\<close>

record Posting =
  Source :: string
  Destination :: string
  Posting_Asset :: string
  Posting_Amount :: "64 word"

text \<open>
  The opcodes that \<open>tick\<close> switches on. Their byte values (\<open>program.OP_APUSH\<close>, ...)
  are not under src, so the decoding of a byte is a parameter of the model
  (\<open>decode_op\<close> below); a byte that is no opcode decodes to \<open>None\<close>, the
  \<open>default\<close> case of the switch.
\<close>

datatype Opcode =
    OP_APUSH | OP_IPUSH | OP_BUMP | OP_IADD | OP_ISUB | OP_PRINT | OP_FAIL | OP_ASSET
  | OP_MONETARY_NEW | OP_MONETARY_ADD | OP_MAKE_ALLOTMENT | OP_TAKE_ALL | OP_TAKE
  | OP_TAKE_MAX | OP_FUNDING_ASSEMBLE | OP_FUNDING_SUM | OP_FUNDING_REVERSE | OP_ALLOC
  | OP_REPAY | OP_SEND | OP_TX_META

text \<open>
  What \<open>tick\<close> uses and src does not hold, taken as parameters: the opcode numbering,
  \<open>core.NewAllotment\<close>, \<open>Allotment.Allocate\<close>, and the longest slice that
  \<open>make\<close> can allocate before it panics.
\<close>

record Extern =
  decode_op :: "byte \<Rightarrow> Opcode option"
  NewAllotment :: "Portion list \<Rightarrow> string + Allotment"
  Allocate :: "Allotment \<Rightarrow> u64 \<Rightarrow> u64 list"
  make_limit :: nat

text \<open>
  \<open>NeededBalances\<close> is a Go map of maps, ranged over in an order the language leaves
  open: the list gives the entries in the order the loops visit them.
\<close>

record Program =
  Instructions :: "byte list"
  NeededBalances :: "(Address \<times> Address list) list"

type_synonym balances = "string \<rightharpoonup> (string \<rightharpoonup> u64)"

text \<open>
  The fields of \<open>Machine\<close> that resolution and execution read or write. \<open>P\<close> is a Go
  \<open>uint\<close>; \<open>tick\<close> indexes the instructions with it first, so it is below their
  length whenever it is increased, and a natural number models it without wrap-around.
  \<open>Balances\<close> is \<open>None\<close> for the nil map. The values sent on \<open>print_chan\<close> are
  collected in \<open>Printed\<close>.
\<close>

record Machine =
  P :: nat
  Program :: Program
  UnresolvedResources :: "Resource list"
  Resources :: "Value list"
  Balances :: "balances option"
  set_balance_called :: bool
  Stack :: "Value list"
  Postings :: "Posting list"
  TxMeta :: "string \<rightharpoonup> Value"
  Printed :: "Value list"

definition EXIT_OK :: byte where "EXIT_OK = 1"
definition EXIT_FAIL :: byte where "EXIT_FAIL = 2"
definition EXIT_FAIL_INVALID :: byte where "EXIT_FAIL_INVALID = 3"
definition EXIT_FAIL_INSUFFICIENT_FUNDS :: byte where "EXIT_FAIL_INSUFFICIENT_FUNDS = 4"

definition getResource :: "Machine \<Rightarrow> Address \<Rightarrow> Value option" where
  "getResource m addr =
     (let a = unat addr
      in if a \<ge> length (Resources m) then None else Some (Resources m ! a))"

text \<open>Reading a Go map: a nil map has no entry, a missing key reads as zero.\<close>

definition lookup_account :: "Machine \<Rightarrow> string \<Rightarrow> (string \<rightharpoonup> u64) option" where
  "lookup_account m account = (case Balances m of None \<Rightarrow> None | Some b \<Rightarrow> b account)"

definition read_or_zero :: "(string \<rightharpoonup> u64) \<Rightarrow> string \<Rightarrow> u64" where
  "read_or_zero acc_balance asset = (case acc_balance asset of None \<Rightarrow> 0 | Some v \<Rightarrow> v)"

text \<open>
  The inner map \<open>acc_balance\<close> of an account is shared with the outer map, so a write
  through it is seen in \<open>m.Balances\<close>: \<open>set_account\<close> stores the inner map's new
  contents under the account.
\<close>

definition set_account :: "Machine \<Rightarrow> string \<Rightarrow> (string \<rightharpoonup> u64) \<Rightarrow> Machine" where
  "set_account m account acc_balance =
     m\<lparr>Balances := Some ((case Balances m of None \<Rightarrow> Map.empty | Some b \<Rightarrow> b)
                            (account \<mapsto> acc_balance))\<rparr>"

definition withdrawAll :: "Machine \<Rightarrow> string \<Rightarrow> string \<Rightarrow> string + (Funding \<times> Machine)" where
  "withdrawAll m account asset =
     (if account = ''world'' then
        Inr (\<lparr>Asset = asset, Parts = [], Infinite = True\<rparr>, m)
      else
        (case lookup_account m account of
           Some acc_balance \<Rightarrow>
             (case acc_balance asset of
                Some balance \<Rightarrow>
                  Inr (\<lparr>Asset = asset,
                        Parts = [\<lparr>Amount = balance, Account = account\<rparr>],
                        Infinite = False\<rparr>,
                       set_account m account (acc_balance(asset \<mapsto> 0)))
              | None \<Rightarrow> Inl (''missing '' @ asset @ '' balance from '' @ account))
         | None \<Rightarrow> Inl (''missing '' @ asset @ '' balance from '' @ account)))"

definition credit :: "Machine \<Rightarrow> string \<Rightarrow> Funding \<Rightarrow> Machine" where
  "credit m account funding =
     (if account = ''world'' then m
      else
        (case lookup_account m account of
           Some acc_balance \<Rightarrow>
             (case acc_balance (Asset funding) of
                Some _ \<Rightarrow>
                  set_account m account
                    (foldl (\<lambda>acc part.
                              acc(Asset funding \<mapsto>
                                    read_or_zero acc (Asset funding) + Amount part))
                       acc_balance (Parts funding))
              | None \<Rightarrow> m)
         | None \<Rightarrow> m))"

text \<open>
  \<open>repay\<close>: \<open>m.Balances[account][asset] += amount\<close> reads the inner map of the account
  and writes into it. For an account without an entry the inner map read is nil, and a
  write into a nil map panics: \<open>None\<close>.
\<close>

fun repay_loop :: "Machine \<Rightarrow> string \<Rightarrow> FundingPart list \<Rightarrow> Machine option" where
  "repay_loop m asset [] = Some m"
| "repay_loop m asset (part # parts) =
     (if Account part = ''world'' then repay_loop m asset parts
      else
        (case lookup_account m (Account part) of
           None \<Rightarrow> None
         | Some acc_balance \<Rightarrow>
             repay_loop
               (set_account m (Account part)
                  (acc_balance(asset \<mapsto> read_or_zero acc_balance asset + Amount part)))
               asset parts))"

definition repay :: "Machine \<Rightarrow> Funding \<Rightarrow> Machine option" where
  "repay m funding = repay_loop m (Asset funding) (Parts funding)"

section \<open>vm/machine.go: tick\<close>

text \<open>
  Modelled from the spec: the stack helpers \<open>popValue\<close>, \<open>popNumber\<close>,
  \<open>popAccount\<close>, \<open>popAsset\<close>, \<open>popString\<close>, \<open>popMonetary\<close>, \<open>popPortion\<close>,
  \<open>popAllotment\<close>, \<open>popFunding\<close> and \<open>pushValue\<close> are not under src. The stack is
  the slice \<open>m.Stack\<close> with its top at the end (\<open>tick\<close> itself appends to it); a pop
  removes the last value and a typed pop asks for its variant. Section 4.7 of the spec:
  on any type mismatch pop the machine halts with \<open>EXIT_FAIL_INVALID\<close>. A pop that cannot
  deliver (no value, or one of another variant) is \<open>None\<close> here, and \<open>tick\<close> reports
  it as its own outcome.
\<close>

definition popValue :: "Machine \<Rightarrow> (Value \<times> Machine) option" where
  "popValue m =
     (if Stack m = [] then None
      else Some (last (Stack m), m\<lparr>Stack := butlast (Stack m)\<rparr>))"

definition pushValue :: "Machine \<Rightarrow> Value \<Rightarrow> Machine" where
  "pushValue m v = m\<lparr>Stack := Stack m @ [v]\<rparr>"

definition popNumber :: "Machine \<Rightarrow> (u64 \<times> Machine) option" where
  "popNumber m = (case popValue m of Some (V_Number n, m') \<Rightarrow> Some (n, m') | _ \<Rightarrow> None)"

definition popAccount :: "Machine \<Rightarrow> (string \<times> Machine) option" where
  "popAccount m = (case popValue m of Some (V_Account a, m') \<Rightarrow> Some (a, m') | _ \<Rightarrow> None)"

definition popAsset :: "Machine \<Rightarrow> (string \<times> Machine) option" where
  "popAsset m = (case popValue m of Some (V_Asset a, m') \<Rightarrow> Some (a, m') | _ \<Rightarrow> None)"

definition popString :: "Machine \<Rightarrow> (string \<times> Machine) option" where
  "popString m = (case popValue m of Some (V_String s, m') \<Rightarrow> Some (s, m') | _ \<Rightarrow> None)"

definition popMonetary :: "Machine \<Rightarrow> (Monetary \<times> Machine) option" where
  "popMonetary m = (case popValue m of Some (V_Monetary x, m') \<Rightarrow> Some (x, m') | _ \<Rightarrow> None)"

definition popPortion :: "Machine \<Rightarrow> (Portion \<times> Machine) option" where
  "popPortion m = (case popValue m of Some (V_Portion x, m') \<Rightarrow> Some (x, m') | _ \<Rightarrow> None)"

definition popAllotment :: "Machine \<Rightarrow> (Allotment \<times> Machine) option" where
  "popAllotment m = (case popValue m of Some (V_Allotment x, m') \<Rightarrow> Some (x, m') | _ \<Rightarrow> None)"

definition popFunding :: "Machine \<Rightarrow> (Funding \<times> Machine) option" where
  "popFunding m = (case popValue m of Some (V_Funding x, m') \<Rightarrow> Some (x, m') | _ \<Rightarrow> None)"

text \<open>
  What the body of the switch can do: panic (a Go run-time panic in code under src: an
  index or slice bound out of range, a write into a nil map, a \<open>make\<close> that cannot
  allocate), stop in a pop helper, \<open>return true, code\<close>, or fall out of the switch with
  the machine updated.
\<close>

datatype 'a step = Panic | Invalid_pop | Return byte Machine | Continue 'a

definition pop_bind :: "('a \<times> Machine) option \<Rightarrow> ('a \<Rightarrow> Machine \<Rightarrow> 'b step) \<Rightarrow> 'b step" where
  "pop_bind r k = (case r of None \<Rightarrow> Invalid_pop | Some (v, m) \<Rightarrow> k v m)"

text \<open>\<open>binary.LittleEndian.Uint16\<close> and \<open>Uint64\<close> of the Go standard library.\<close>

definition Uint16 :: "byte list \<Rightarrow> 16 word" where
  "Uint16 b = or (ucast (b ! 0)) (push_bit 8 (ucast (b ! 1)))"

definition Uint64 :: "byte list \<Rightarrow> u64" where
  "Uint64 b =
     or (ucast (b ! 0)) (or (push_bit 8 (ucast (b ! 1))) (or (push_bit 16 (ucast (b ! 2)))
       (or (push_bit 24 (ucast (b ! 3))) (or (push_bit 32 (ucast (b ! 4)))
         (or (push_bit 40 (ucast (b ! 5))) (or (push_bit 48 (ucast (b ! 6)))
           (push_bit 56 (ucast (b ! 7)))))))))"

text \<open>\<open>MAKE_ALLOTMENT\<close>: the loop that pops \<open>n\<close> portions into \<open>portions[0..n)\<close>.\<close>

fun pop_portions :: "nat \<Rightarrow> Machine \<Rightarrow> Portion list \<Rightarrow> (Portion list \<times> Machine) step" where
  "pop_portions 0 m portions = Continue (portions, m)"
| "pop_portions (Suc k) m portions =
     pop_bind (popPortion m) (\<lambda>p m'. pop_portions k m' (portions @ [p]))"

text \<open>
  \<open>FUNDING_ASSEMBLE\<close>: the loop that pops the fundings 1 to \<open>n - 1\<close> into
  \<open>fundings_rev\<close>, each checked against the asset of the first.
\<close>

fun pop_fundings :: "nat \<Rightarrow> string \<Rightarrow> Machine \<Rightarrow> Funding list \<Rightarrow> (Funding list \<times> Machine) step" where
  "pop_fundings 0 asset m fundings_rev = Continue (fundings_rev, m)"
| "pop_fundings (Suc k) asset m fundings_rev =
     pop_bind (popFunding m) (\<lambda>f m'.
       if Asset f \<noteq> asset then Return EXIT_FAIL_INVALID m'
       else pop_fundings k asset m' (fundings_rev @ [f]))"

text \<open>The second loop: \<open>result = result.Concat(fundings_rev[n-1-i])\<close> for \<open>i\<close> from 0.\<close>

function concat_loop :: "Funding list \<Rightarrow> nat \<Rightarrow> nat \<Rightarrow> Funding \<Rightarrow> string + Funding" where
  "concat_loop fundings_rev n i result =
     (if i < n then
        (case Concat result (fundings_rev ! (n - 1 - i)) of
           Inl err \<Rightarrow> Inl err
         | Inr res \<Rightarrow> concat_loop fundings_rev n (i + 1) res)
      else Inr result)"
  by pat_completeness auto
termination
  by (relation "measure (\<lambda>(fs, n, i, r). n - i)") auto

declare concat_loop.simps [simp del]

text \<open>The postings of \<open>SEND\<close>: one for each part with a non-zero amount, in part order.\<close>

definition send_postings :: "string \<Rightarrow> Funding \<Rightarrow> Posting list" where
  "send_postings dest funding =
     map (\<lambda>part. \<lparr>Source = Account part, Destination = dest,
                   Posting_Asset = Asset funding, Posting_Amount = Amount part\<rparr>)
       (filter (\<lambda>part. \<not> Amount part = 0) (Parts funding))"

text \<open>
  The cases of the switch. The operand bytes of \<open>APUSH\<close> and \<open>IPUSH\<close> are a slice of
  the instructions; the instruction slice is taken to have no spare capacity, so that an
  operand that runs past its end panics. \<open>BUMP\<close> computes \<open>len - int(n) - 1\<close> in
  \<open>int\<close>; an index that is negative or not below the length panics (where the
  subtraction wraps around the index is negative too). In \<open>FUNDING_ASSEMBLE\<close>,
  \<open>int(n)\<close> reads the 64 bits as signed, and \<open>make\<close> panics on a negative length.
\<close>

fun exec :: "Extern \<Rightarrow> Opcode \<Rightarrow> Machine \<Rightarrow> Machine step" where
  "exec ext OP_APUSH m =
     (let instrs = Instructions (Program m) in
      if P m + 3 > length instrs then Panic
      else
        (let bytes = take 2 (drop (P m + 1) instrs) in
         case getResource m (Uint16 bytes) of
           None \<Rightarrow> Return EXIT_FAIL m
         | Some v \<Rightarrow> Continue (m\<lparr>Stack := Stack m @ [v], P := P m + 2\<rparr>)))"
| "exec ext OP_IPUSH m =
     (let instrs = Instructions (Program m) in
      if P m + 9 > length instrs then Panic
      else
        (let bytes = take 8 (drop (P m + 1) instrs);
             v = V_Number (Uint64 bytes)
         in Continue (m\<lparr>Stack := Stack m @ [v], P := P m + 8\<rparr>)))"
| "exec ext OP_BUMP m =
     pop_bind (popNumber m) (\<lambda>n m.
       let idx = int (length (Stack m)) - sint n - 1 in
       if idx < 0 \<or> idx \<ge> int (length (Stack m)) then Panic
       else
         (let v = Stack m ! nat idx;
              m = m\<lparr>Stack := take (nat idx) (Stack m) @ drop (nat idx + 1) (Stack m)\<rparr>
          in Continue (m\<lparr>Stack := Stack m @ [v]\<rparr>)))"
| "exec ext OP_IADD m =
     pop_bind (popNumber m) (\<lambda>b m.
     pop_bind (popNumber m) (\<lambda>a m.
       Continue (pushValue m (V_Number (a + b)))))"
| "exec ext OP_ISUB m =
     pop_bind (popNumber m) (\<lambda>b m.
     pop_bind (popNumber m) (\<lambda>a m.
       Continue (pushValue m (V_Number (a - b)))))"
| "exec ext OP_PRINT m =
     pop_bind (popValue m) (\<lambda>a m.
       Continue (m\<lparr>Printed := Printed m @ [a]\<rparr>))"
| "exec ext OP_FAIL m = Return EXIT_FAIL m"
| "exec ext OP_ASSET m =
     pop_bind (popValue m) (\<lambda>v m.
       case v of
         V_Asset a \<Rightarrow> Continue (pushValue m (V_Asset a))
       | V_Monetary mon \<Rightarrow> Continue (pushValue m (V_Asset (Monetary_Asset mon)))
       | V_Funding f \<Rightarrow> Continue (pushValue m (V_Asset (Asset f)))
       | _ \<Rightarrow> Return EXIT_FAIL_INVALID m)"
| "exec ext OP_MONETARY_NEW m =
     pop_bind (popNumber m) (\<lambda>amount m.
     pop_bind (popAsset m) (\<lambda>asset m.
       Continue (pushValue m
         (V_Monetary \<lparr>Monetary_Asset = asset, Monetary_Amount = amount\<rparr>))))"
| "exec ext OP_MONETARY_ADD m =
     pop_bind (popMonetary m) (\<lambda>b m.
     pop_bind (popMonetary m) (\<lambda>a m.
       if Monetary_Asset a \<noteq> Monetary_Asset b then Return EXIT_FAIL_INVALID m
       else Continue (pushValue m
         (V_Monetary \<lparr>Monetary_Asset = Monetary_Asset a,
                      Monetary_Amount = Monetary_Amount a + Monetary_Amount b\<rparr>))))"
| "exec ext OP_MAKE_ALLOTMENT m =
     pop_bind (popNumber m) (\<lambda>n m.
       if unat n > make_limit ext then Panic
       else
         (case pop_portions (unat n) m [] of
            Panic \<Rightarrow> Panic
          | Invalid_pop \<Rightarrow> Invalid_pop
          | Return c m' \<Rightarrow> Return c m'
          | Continue (portions, m) \<Rightarrow>
              (case NewAllotment ext portions of
                 Inl err \<Rightarrow> Return EXIT_FAIL_INVALID m
               | Inr allotment \<Rightarrow> Continue (pushValue m (V_Allotment allotment)))))"
| "exec ext OP_TAKE_ALL m =
     pop_bind (popAsset m) (\<lambda>asset m.
     pop_bind (popAccount m) (\<lambda>account m.
       case withdrawAll m account asset of
         Inl err \<Rightarrow> Return EXIT_FAIL_INVALID m
       | Inr (funding, m) \<Rightarrow> Continue (pushValue m (V_Funding funding))))"
| "exec ext OP_TAKE m =
     pop_bind (popMonetary m) (\<lambda>mon m.
     pop_bind (popFunding m) (\<lambda>funding m.
       if Asset funding \<noteq> Monetary_Asset mon then Return EXIT_FAIL_INVALID m
       else
         (case Take funding (Monetary_Amount mon) of
            Inl err \<Rightarrow> Return EXIT_FAIL_INSUFFICIENT_FUNDS m
          | Inr (result, remainder) \<Rightarrow>
              Continue (pushValue (pushValue m (V_Funding remainder)) (V_Funding result)))))"
| "exec ext OP_TAKE_MAX m =
     pop_bind (popMonetary m) (\<lambda>mon m.
     pop_bind (popFunding m) (\<lambda>funding m.
       if Asset funding \<noteq> Monetary_Asset mon then Return EXIT_FAIL_INVALID m
       else
         (case TakeMax funding (Monetary_Amount mon) of
            (result, remainder) \<Rightarrow>
              Continue (pushValue (pushValue m (V_Funding remainder)) (V_Funding result)))))"
| "exec ext OP_FUNDING_ASSEMBLE m =
     pop_bind (popNumber m) (\<lambda>n m.
       if sint n = 0 then Return EXIT_FAIL_INVALID m
       else
         pop_bind (popFunding m) (\<lambda>first m.
           let result = \<lparr>Asset = Asset first, Parts = [], Infinite = False\<rparr> in
           if sint n < 0 \<or> nat (sint n) > make_limit ext then Panic
           else
             (case pop_fundings (nat (sint n) - 1) (Asset result) m [first] of
                Panic \<Rightarrow> Panic
              | Invalid_pop \<Rightarrow> Invalid_pop
              | Return c m' \<Rightarrow> Return c m'
              | Continue (fundings_rev, m) \<Rightarrow>
                  (case concat_loop fundings_rev (nat (sint n)) 0 result of
                     Inl err \<Rightarrow> Return EXIT_FAIL_INVALID m
                   | Inr result \<Rightarrow> Continue (pushValue m (V_Funding result))))))"
| "exec ext OP_FUNDING_SUM m =
     pop_bind (popFunding m) (\<lambda>funding m.
       case Total funding of
         Inl err \<Rightarrow> Return EXIT_FAIL_INVALID m
       | Inr funding_sum \<Rightarrow>
           Continue (pushValue (pushValue m (V_Funding funding))
             (V_Monetary \<lparr>Monetary_Asset = Asset funding, Monetary_Amount = funding_sum\<rparr>)))"
| "exec ext OP_FUNDING_REVERSE m =
     pop_bind (popFunding m) (\<lambda>funding m.
       case Reverse funding of
         Inl err \<Rightarrow> Return EXIT_FAIL_INVALID m
       | Inr result \<Rightarrow> Continue (pushValue m (V_Funding result)))"
| "exec ext OP_ALLOC m =
     pop_bind (popAllotment m) (\<lambda>allotment m.
     pop_bind (popMonetary m) (\<lambda>monetary m.
       let total' = Monetary_Amount monetary;
           parts = Allocate ext allotment total'
       in Continue (foldl (\<lambda>m part. pushValue m
                      (V_Monetary \<lparr>Monetary_Asset = Monetary_Asset monetary,
                                   Monetary_Amount = part\<rparr>))
                    m (rev parts))))"
| "exec ext OP_REPAY m =
     pop_bind (popFunding m) (\<lambda>funding m.
       case repay m funding of None \<Rightarrow> Panic | Some m \<Rightarrow> Continue m)"
| "exec ext OP_SEND m =
     pop_bind (popAccount m) (\<lambda>dest m.
     pop_bind (popFunding m) (\<lambda>funding m.
       let m = credit m dest funding
       in Continue (m\<lparr>Postings := Postings m @ send_postings dest funding\<rparr>)))"
| "exec ext OP_TX_META m =
     pop_bind (popString m) (\<lambda>k m.
     pop_bind (popValue m) (\<lambda>v m.
       Continue (m\<lparr>TxMeta := (TxMeta m)(k \<mapsto> v)\<rparr>)))"

text \<open>
  \<open>tick\<close>: fetch (\<open>Instructions[m.P]\<close> panics when \<open>P\<close> is not below the length),
  the switch, then \<open>m.P += 1\<close> and the test against the length (\<open>after_switch\<close>).
  \<open>Tick finished code m\<close> is the returned pair with the machine as \<open>tick\<close> leaves it.
\<close>

datatype tick_result = Tick_panic | Tick_invalid_pop | Tick bool byte Machine

definition after_switch :: "Machine \<Rightarrow> tick_result" where
  "after_switch m =
     (let m = m\<lparr>P := P m + 1\<rparr> in
      if P m \<ge> length (Instructions (Program m)) then Tick True EXIT_OK m
      else Tick False 0 m)"

definition tick :: "Extern \<Rightarrow> Machine \<Rightarrow> tick_result" where
  "tick ext m =
     (if P m \<ge> length (Instructions (Program m)) then Tick_panic
      else
        (let op = Instructions (Program m) ! P m in
         case (case decode_op ext op of
                 None \<Rightarrow> Return EXIT_FAIL_INVALID m
               | Some opcode \<Rightarrow> exec ext opcode m) of
           Panic \<Rightarrow> Tick_panic
         | Invalid_pop \<Rightarrow> Tick_invalid_pop
         | Return code m \<Rightarrow> Tick True code m
         | Continue m \<Rightarrow> after_switch m))"

section \<open>vm/machine.go: Execute\<close>

text \<open>
  What a run of the loop of \<open>Execute\<close> ends in: a panic, a stop in a pop helper (which
  the spec reports as \<open>EXIT_FAIL_INVALID\<close>), or the exit code returned with a nil
  error. The loop has no bound of its own, so it is a partial function; that it always
  returns is a theorem below.
\<close>

datatype run_result = Run_panic | Run_invalid_pop | Run_exit byte Machine

partial_function (option) Execute_loop :: "Extern \<Rightarrow> Machine \<Rightarrow> run_result option" where
  "Execute_loop ext m =
     (case tick ext m of
        Tick_panic \<Rightarrow> Some Run_panic
      | Tick_invalid_pop \<Rightarrow> Some Run_invalid_pop
      | Tick finished exit_code m' \<Rightarrow>
          if finished then
            (if length (Stack m') \<noteq> 0 then Some (Run_exit EXIT_FAIL_INVALID m')
             else Some (Run_exit exit_code m'))
          else Execute_loop ext m')"

definition Execute :: "Extern \<Rightarrow> Machine \<Rightarrow> (string + run_result) option" where
  "Execute ext m =
     (if length (Resources m) \<noteq> length (UnresolvedResources m) then
        Some (Inl ''resources haven't been initialized'')
      else if Balances m = None then Some (Inl ''balances haven't been initialized'')
      else map_option Inr (Execute_loop ext m))"

section \<open>vm/machine.go: ResolveBalances\<close>

text \<open>
  Modelled from the spec: \<open>core.HasAsset\<close> is not under src. Section 4.1: \<open>Asset\<close>,
  \<open>Monetary\<close> and \<open>Funding\<close> expose a "get asset" view.
\<close>

definition GetAsset :: "Value \<Rightarrow> string option" where
  "GetAsset v =
     (case v of
        V_Asset a \<Rightarrow> Some a
      | V_Monetary mon \<Rightarrow> Some (Monetary_Asset mon)
      | V_Funding f \<Rightarrow> Some (Asset f)
      | _ \<Rightarrow> None)"

text \<open>
  What the goroutine of \<open>ResolveBalances\<close> sends on its channel: a request for the
  balance of an account in an asset, or an error, after which it returns. The caller's
  answers are a parameter: \<open>resp k\<close> is what the response channel of request number
  \<open>k\<close> delivers, \<open>None\<close> when it is closed without a value. The model runs the
  goroutine to its end and returns the requests in the order sent.
\<close>

datatype BalanceRequest = Request string string | Request_error string

fun resolve_assets ::
  "(nat \<Rightarrow> u64 option) \<Rightarrow> Machine \<Rightarrow> string \<Rightarrow> Address list \<Rightarrow> balances
     \<Rightarrow> BalanceRequest list \<Rightarrow> bool \<times> balances \<times> BalanceRequest list" where
  "resolve_assets resp m account [] b reqs = (True, b, reqs)"
| "resolve_assets resp m account (addr # addrs) b reqs =
     (case getResource m addr of
        None \<Rightarrow>
          (False, b, reqs @ [Request_error
             ''invalid program (resolve balances: invalid address of monetary)''])
      | Some mon \<Rightarrow>
          (case GetAsset mon of
             Some asset \<Rightarrow>
               (let reqs' = reqs @ [Request account asset] in
                case resp (length reqs) of
                  None \<Rightarrow> (False, b, reqs' @ [Request_error ''error on response channel''])
                | Some balance \<Rightarrow>
                    resolve_assets resp m account addrs
                      (b(account \<mapsto>
                           (case b account of None \<Rightarrow> Map.empty | Some acc \<Rightarrow> acc)
                             (asset \<mapsto> balance)))
                      reqs')
           | None \<Rightarrow>
               (False, b, reqs @ [Request_error
                  ''invalid program (resolve balances: not an asset)''])))"

fun resolve_accounts ::
  "(nat \<Rightarrow> u64 option) \<Rightarrow> Machine \<Rightarrow> (Address \<times> Address list) list \<Rightarrow> balances
     \<Rightarrow> BalanceRequest list \<Rightarrow> balances \<times> BalanceRequest list" where
  "resolve_accounts resp m [] b reqs = (b, reqs)"
| "resolve_accounts resp m ((addr, needed_assets) # rest) b reqs =
     (case getResource m addr of
        None \<Rightarrow>
          (b, reqs @ [Request_error
             ''invalid program (resolve balances: invalid address of account)''])
      | Some v \<Rightarrow>
          (case v of
             V_Account account \<Rightarrow>
               if account = ''world'' then resolve_accounts resp m rest b reqs
               else
                 (case resolve_assets resp m account needed_assets
                         (b(account \<mapsto> Map.empty)) reqs of
                    (True, b', reqs') \<Rightarrow> resolve_accounts resp m rest b' reqs'
                  | (False, b', reqs') \<Rightarrow> (b', reqs'))
           | _ \<Rightarrow>
               (b, reqs @ [Request_error
                  ''incorrect program (resolve balances: not an account)''])))"

definition ResolveBalances ::
  "(nat \<Rightarrow> u64 option) \<Rightarrow> Machine \<Rightarrow> string + (BalanceRequest list \<times> Machine)" where
  "ResolveBalances resp m =
     (if length (Resources m) \<noteq> length (UnresolvedResources m) then
        Inl ''tried to resolve balances before resources''
      else if set_balance_called m then Inl ''tried to call ResolveBalances twice''
      else
        (case resolve_accounts resp m (NeededBalances (Program m)) Map.empty [] of
           (b, reqs) \<Rightarrow> Inr (reqs, m\<lparr>set_balance_called := True, Balances := Some b\<rparr>)))"

section \<open>Notions used to state the properties\<close>

text \<open>
  The walk of the first loop of \<open>Take\<close> written by recursion on the parts not yet
  visited: what is left to withdraw, how many parts were visited, the parts appended to
  the result and those appended to the remainder. \<open>take_loop_walk\<close> below shows that
  the loop computes it.
\<close>

fun take_walk :: "u64 \<Rightarrow> FundingPart list \<Rightarrow> u64 \<times> nat \<times> FundingPart list \<times> FundingPart list" where
  "take_walk r [] = (r, 0, [], [])"
| "take_walk r (p # ps) =
     (if 0 < r then
        (if Amount p > r then
           (case take_walk (r - r) ps of (r', n, tk, rm) \<Rightarrow>
              (r', Suc n, \<lparr>Amount = r, Account = Account p\<rparr> # tk,
               \<lparr>Amount = Amount p - r, Account = Account p\<rparr> # rm))
         else
           (case take_walk (r - Amount p) ps of (r', n, tk, rm) \<Rightarrow>
              (r', Suc n, \<lparr>Amount = Amount p, Account = Account p\<rparr> # tk, rm)))
      else (r, 0, [], []))"

text \<open>The sum of the amounts in \<open>uint64\<close>, and their exact sum.\<close>

definition wsum :: "FundingPart list \<Rightarrow> u64" where
  "wsum ps = sum_list (map Amount ps)"

definition nsum :: "FundingPart list \<Rightarrow> nat" where
  "nsum ps = sum_list (map (\<lambda>p. unat (Amount p)) ps)"

text \<open>
  \<open>ts\<close> followed by \<open>rs\<close> is \<open>ps\<close> in order, cut either between two parts or
  inside one part: then the last part of \<open>ts\<close> and the first of \<open>rs\<close> carry the account
  of the part that was cut, and their amounts add up to its amount.
\<close>

definition order_preserving_split ::
  "FundingPart list \<Rightarrow> FundingPart list \<Rightarrow> FundingPart list \<Rightarrow> bool" where
  "order_preserving_split ps ts rs =
     (ts @ rs = ps \<or>
      (ts \<noteq> [] \<and> rs \<noteq> [] \<and> length ts \<le> length ps \<and>
       butlast ts = take (length ts - 1) ps \<and> tl rs = drop (length ts) ps \<and>
       Account (last ts) = Account (ps ! (length ts - 1)) \<and>
       Account (hd rs) = Account (ps ! (length ts - 1)) \<and>
       unat (Amount (last ts)) + unat (Amount (hd rs)) = unat (Amount (ps ! (length ts - 1)))))"

text \<open>The left fold of \<open>Concat\<close> over a sequence of fundings, stopping at an error.\<close>

fun Concat_fold :: "Funding \<Rightarrow> Funding list \<Rightarrow> string + Funding" where
  "Concat_fold result [] = Inr result"
| "Concat_fold result (f # fs) =
     (case Concat result f of Inl err \<Rightarrow> Inl err | Inr res \<Rightarrow> Concat_fold res fs)"

text \<open>\<open>steps_to ext m m'\<close>: the loop of \<open>Execute\<close> gets from \<open>m\<close> to \<open>m'\<close> by ticks
  that do not finish.\<close>

inductive steps_to :: "Extern \<Rightarrow> Machine \<Rightarrow> Machine \<Rightarrow> bool" for ext :: Extern where
  steps_to_refl: "steps_to ext m m"
| steps_to_tick: "tick ext m = Tick False code m1 \<Longrightarrow> steps_to ext m1 m2 \<Longrightarrow> steps_to ext m m2"

text \<open>The balances hold no entry for the account \<open>world\<close>.\<close>

definition no_world_entry :: "Machine \<Rightarrow> bool" where
  "no_world_entry m = (lookup_account m ''world'' = None)"

text \<open>
  Externals for the examples: the opcodes numbered from 1 in the order of the switch,
  the allotment functions left out (no example runs \<open>MAKE_ALLOTMENT\<close> or \<open>ALLOC\<close>).
  The theorems hold for every choice of externals.
\<close>

definition sample_decode :: "byte \<Rightarrow> Opcode option" where
  "sample_decode b =
     (if b = 1 then Some OP_APUSH else if b = 2 then Some OP_IPUSH
      else if b = 3 then Some OP_BUMP else if b = 4 then Some OP_IADD
      else if b = 5 then Some OP_ISUB else if b = 6 then Some OP_PRINT
      else if b = 7 then Some OP_FAIL else if b = 8 then Some OP_ASSET
      else if b = 9 then Some OP_MONETARY_NEW else if b = 10 then Some OP_MONETARY_ADD
      else if b = 11 then Some OP_MAKE_ALLOTMENT else if b = 12 then Some OP_TAKE_ALL
      else if b = 13 then Some OP_TAKE else if b = 14 then Some OP_TAKE_MAX
      else if b = 15 then Some OP_FUNDING_ASSEMBLE else if b = 16 then Some OP_FUNDING_SUM
      else if b = 17 then Some OP_FUNDING_REVERSE else if b = 18 then Some OP_ALLOC
      else if b = 19 then Some OP_REPAY else if b = 20 then Some OP_SEND
      else if b = 21 then Some OP_TX_META else None)"

definition sample_extern :: Extern where
  "sample_extern =
     \<lparr>decode_op = sample_decode,
      NewAllotment = (\<lambda>portions. Inl ''not used in the examples''),
      Allocate = (\<lambda>allotment amount. []),
      make_limit = 1000\<rparr>"

text \<open>A machine ready to run: resources resolved, empty balances, nothing on the stack.\<close>

definition sample_machine :: "byte list \<Rightarrow> Value list \<Rightarrow> Machine" where
  "sample_machine instrs stack =
     \<lparr>P = 0, Program = \<lparr>Instructions = instrs, NeededBalances = []\<rparr>,
      UnresolvedResources = [], Resources = [], Balances = Some Map.empty,
      set_balance_called = True, Stack = stack, Postings = [], TxMeta = Map.empty,
      Printed = []\<rparr>"

text \<open>
  What an instruction keeps: the program and, where the balances had no entry for
  \<open>world\<close>, the absence of one. \<open>frame_eq\<close> also keeps the program counter (the
  pops, the pushes and the paths that return from the switch); \<open>frame_le\<close> lets it
  grow (the paths that fall out of the switch). \<open>step_frame\<close> reads this off an outcome
  of the switch.
\<close>

definition frame_eq :: "Machine \<Rightarrow> Machine \<Rightarrow> bool" where
  "frame_eq m m' \<longleftrightarrow>
     Program m' = Program m \<and> P m' = P m \<and> (no_world_entry m \<longrightarrow> no_world_entry m')"

definition frame_le :: "Machine \<Rightarrow> Machine \<Rightarrow> bool" where
  "frame_le m m' \<longleftrightarrow>
     Program m' = Program m \<and> P m \<le> P m' \<and> (no_world_entry m \<longrightarrow> no_world_entry m')"

definition step_frame :: "Machine \<Rightarrow> Machine step \<Rightarrow> bool" where
  "step_frame m st =
     (case st of Continue m' \<Rightarrow> frame_le m m' | Return c m' \<Rightarrow> frame_eq m m' | _ \<Rightarrow> True)"

text \<open>
  The loop invariant of balance resolution: neither an entry nor a request for
  \<open>world\<close> so far.
\<close>

definition no_world_so_far :: "balances \<Rightarrow> BalanceRequest list \<Rightarrow> bool" where
  "no_world_so_far b reqs \<longleftrightarrow>
     b ''world'' = None \<and> (\<forall>asset. Request ''world'' asset \<notin> set reqs)"

text \<open>
  A machine before balance resolution whose program needs the \<open>EUR\<close> balance of
  \<open>world\<close> (resource 0) and of \<open>alice\<close> (resource 2).
\<close>

definition sample_unresolved :: Machine where
  "sample_unresolved =
     (sample_machine [12, 7] [])
        \<lparr>Program := \<lparr>Instructions = [12, 7], NeededBalances = [(0, [1]), (2, [1])]\<rparr>,
          UnresolvedResources := [Constant (V_Account ''world''), Constant (V_Asset ''EUR''),
                                  Constant (V_Account ''alice'')],
          Resources := [V_Account ''world'', V_Asset ''EUR'', V_Account ''alice''],
          Balances := None, set_balance_called := False\<rparr>"

section \<open>The loops of Take and TakeMax\<close>

lemma take_walk_zero: "take_walk 0 ps = (0, 0, [], [])"
  by (cases ps) simp_all

lemma take_loop_walk:
  "i \<le> length ps \<Longrightarrow>
   take_loop ps r i res rmd =
     (case take_walk r (drop i ps) of (r', n, tk, rm) \<Rightarrow> (r', i + n, res @ tk, rmd @ rm))"
proof (induction "length ps - i" arbitrary: i r res rmd)
  case 0
  then have "i = length ps" by simp
  then show ?case by (subst take_loop.simps) simp
next
  case (Suc k)
  then have lt: "i < length ps" by simp
  then have d: "drop i ps = ps ! i # drop (Suc i) ps"
    by (simp add: Cons_nth_drop_Suc)
  have k: "k = length ps - Suc i" using Suc.hyps by simp
  have le: "Suc i \<le> length ps" using lt by simp
  note IH = Suc.hyps(1)[OF k le]
  show ?case
  proof (cases "0 < r")
    case False
    then show ?thesis by (subst take_loop.simps) (simp add: d)
  next
    case True
    show ?thesis
      using True lt
      by (subst take_loop.simps) (simp add: d IH Let_def take_walk_zero split: prod.splits)
  qed
qed

lemma copy_loop_drop: "copy_loop ps i rmd = rmd @ drop i ps"
proof (induction "length ps - i" arbitrary: i rmd)
  case 0
  then show ?case by (subst copy_loop.simps) simp
next
  case (Suc k)
  then have lt: "i < length ps" by simp
  have k: "k = length ps - Suc i" using Suc.hyps by simp
  show ?case
    using lt by (subst copy_loop.simps) (simp add: Suc.hyps(1)[OF k] flip: Cons_nth_drop_Suc)
qed

lemma foldl_Amount: "foldl (\<lambda>total part. total + Amount part) a ps = a + wsum ps"
  by (induction ps arbitrary: a) (simp_all add: wsum_def add.assoc)

lemma Total_finite: "\<not> Infinite f \<Longrightarrow> Total f = Inr (wsum (Parts f))"
  by (simp add: Total_def foldl_Amount)

lemma unat_wsum_le: "unat (wsum ps) \<le> nsum ps"
proof (induction ps)
  case Nil
  then show ?case by (simp add: wsum_def nsum_def)
next
  case (Cons p ps)
  have "unat (Amount p + wsum ps) \<le> unat (Amount p) + unat (wsum ps)"
    by (simp add: unat_word_ariths)
  with Cons show ?case by (simp add: wsum_def nsum_def)
qed

lemma unat_wsum_eq: "nsum ps < 2 ^ 64 \<Longrightarrow> unat (wsum ps) = nsum ps"
proof (induction ps)
  case Nil
  then show ?case by (simp add: wsum_def nsum_def)
next
  case (Cons p ps)
  then have "unat (wsum ps) = nsum ps" by (simp add: nsum_def)
  moreover have "unat (Amount p + wsum ps) = (unat (Amount p) + unat (wsum ps)) mod 2 ^ 64"
    by (simp add: unat_word_ariths)
  ultimately show ?case using Cons.prems by (simp add: wsum_def nsum_def)
qed

lemma take_walk_n_le: "take_walk r ps = (r', n, tk, rm) \<Longrightarrow> n \<le> length ps"
  by (induction ps arbitrary: r r' n tk rm) (auto split: if_splits prod.splits)

lemma take_walk_sum:
  "take_walk r ps = (r', n, tk, rm) \<Longrightarrow> nsum tk + unat r' = unat r"
proof (induction ps arbitrary: r r' n tk rm)
  case Nil
  then show ?case by (simp add: nsum_def)
next
  case (Cons p ps)
  show ?case
  proof (cases "0 < r")
    case False
    with Cons.prems show ?thesis by (simp add: nsum_def)
  next
    case True
    show ?thesis
    proof (cases "Amount p > r")
      case True
      with Cons.prems \<open>0 < r\<close> show ?thesis
        by (auto simp: take_walk_zero nsum_def)
    next
      case False
      then have le: "Amount p \<le> r" by simp
      obtain tk' where tk: "tk = \<lparr>Amount = Amount p, Account = Account p\<rparr> # tk'"
        and rec: "take_walk (r - Amount p) ps = (r', n - 1, tk', rm)"
        using Cons.prems \<open>0 < r\<close> False by (auto split: prod.splits)
      have "nsum tk' + unat r' = unat (r - Amount p)" by (rule Cons.IH[OF rec])
      also have "\<dots> = unat r - unat (Amount p)" using le by (simp add: unat_sub)
      finally show ?thesis using le by (simp add: tk nsum_def word_le_nat_alt)
    qed
  qed
qed

lemma take_walk_rest:
  "take_walk r ps = (r', n, tk, rm) \<Longrightarrow> r' \<noteq> 0 \<Longrightarrow> n = length ps \<and> rm = []"
  by (induction ps arbitrary: r r' n tk rm)
     (auto simp: take_walk_zero word_gt_0 split: if_splits prod.splits)

lemma take_walk_enough:
  "take_walk r ps = (r', n, tk, rm) \<Longrightarrow> unat r \<le> nsum ps \<Longrightarrow> r' = 0"
proof (induction ps arbitrary: r r' n tk rm)
  case Nil
  then show ?case by (simp add: nsum_def unat_eq_0)
next
  case (Cons p ps)
  show ?case
  proof (cases "0 < r")
    case False
    with Cons.prems show ?thesis by (simp add: word_gt_0)
  next
    case True
    show ?thesis
    proof (cases "Amount p > r")
      case True
      with Cons.prems \<open>0 < r\<close> show ?thesis by (auto simp: take_walk_zero)
    next
      case False
      then have le: "Amount p \<le> r" by simp
      obtain n' tk' where rec: "take_walk (r - Amount p) ps = (r', n', tk', rm)"
        using Cons.prems \<open>0 < r\<close> False by (auto split: prod.splits)
      have "unat (r - Amount p) = unat r - unat (Amount p)" using le by (simp add: unat_sub)
      then have "unat (r - Amount p) \<le> nsum ps" using Cons.prems(2) by (simp add: nsum_def)
      then show ?thesis by (rule Cons.IH[OF rec])
    qed
  qed
qed

lemma take_walk_all:
  "\<forall>p\<in>set ps. 0 < Amount p \<Longrightarrow> nsum ps \<le> unat r \<Longrightarrow>
   take_walk r ps = (r - wsum ps, length ps, ps, [])"
proof (induction ps arbitrary: r)
  case Nil
  then show ?case by (simp add: wsum_def)
next
  case (Cons p ps)
  have pos: "0 < unat (Amount p)" using Cons.prems(1) by (simp add: unat_gt_0 word_neq_0_conv)
  have le_n: "unat (Amount p) \<le> unat r" using Cons.prems(2) by (simp add: nsum_def)
  then have le: "Amount p \<le> r" by (simp add: word_le_nat_alt)
  have r0: "0 < r" using pos le_n by (simp add: word_less_nat_alt)
  have "unat (r - Amount p) = unat r - unat (Amount p)" using le by (simp add: unat_sub)
  then have "nsum ps \<le> unat (r - Amount p)" using Cons.prems(2) by (simp add: nsum_def)
  then have "take_walk (r - Amount p) ps = (r - Amount p - wsum ps, length ps, ps, [])"
    using Cons.IH Cons.prems(1) by simp
  moreover have "\<not> Amount p > r" using le by simp
  ultimately show ?case using r0 by (simp add: wsum_def diff_diff_eq)
qed

lemma take_walk_shape:
  "take_walk r ps = (r', n, tk, rm) \<Longrightarrow>
   (rm = [] \<and> tk = take n ps) \<or>
   (0 < n \<and> r' = 0 \<and>
    (\<exists>a b. tk = take (n - 1) ps @ [\<lparr>Amount = a, Account = Account (ps ! (n - 1))\<rparr>] \<and>
           rm = [\<lparr>Amount = b, Account = Account (ps ! (n - 1))\<rparr>] \<and>
           0 < a \<and> 0 < b \<and> unat a + unat b = unat (Amount (ps ! (n - 1)))))"
proof (induction ps arbitrary: r r' n tk rm)
  case Nil
  then show ?case by simp
next
  case (Cons p ps)
  show ?case
  proof (cases "0 < r")
    case False
    with Cons.prems show ?thesis by simp
  next
    case r0: True
    show ?thesis
    proof (cases "Amount p > r")
      case True
      then have "r \<le> Amount p" by simp
      then have "unat r + unat (Amount p - r) = unat (Amount p)"
        by (simp add: unat_sub word_le_nat_alt)
      moreover have "0 < Amount p - r" using True by (simp add: word_gt_0)
      ultimately show ?thesis using Cons.prems r0 True
        by (auto simp: take_walk_zero)
    next
      case False
      obtain n' tk' where rec: "take_walk (r - Amount p) ps = (r', n', tk', rm)"
        and n: "n = Suc n'" and tk: "tk = p # tk'"
        using Cons.prems r0 False by (auto split: prod.splits)
      from Cons.IH[OF rec] show ?thesis
      proof
        assume "rm = [] \<and> tk' = take n' ps"
        then show ?thesis by (simp add: n tk)
      next
        assume "0 < n' \<and> r' = 0 \<and>
          (\<exists>a b. tk' = take (n' - 1) ps @ [\<lparr>Amount = a, Account = Account (ps ! (n' - 1))\<rparr>] \<and>
                 rm = [\<lparr>Amount = b, Account = Account (ps ! (n' - 1))\<rparr>] \<and>
                 0 < a \<and> 0 < b \<and> unat a + unat b = unat (Amount (ps ! (n' - 1))))"
        then obtain a b where n'0: "0 < n'" and r': "r' = 0"
          and 1: "tk' = take (n' - 1) ps @ [\<lparr>Amount = a, Account = Account (ps ! (n' - 1))\<rparr>]"
          and 2: "rm = [\<lparr>Amount = b, Account = Account (ps ! (n' - 1))\<rparr>]"
          and 3: "0 < a" "0 < b" "unat a + unat b = unat (Amount (ps ! (n' - 1)))"
          by blast
        obtain j where j: "n' = Suc j" using n'0 by (cases n') auto
        show ?thesis
          using r' 1 2 3 by (auto simp: n tk j)
      qed
    qed
  qed
qed

lemma take_walk_split:
  assumes "take_walk r ps = (r', n, tk, rm)"
  shows "order_preserving_split ps tk (rm @ drop n ps)"
proof -
  have nle: "n \<le> length ps" using assms by (rule take_walk_n_le)
  from take_walk_shape[OF assms] show ?thesis
  proof
    assume "rm = [] \<and> tk = take n ps"
    then show ?thesis by (simp add: order_preserving_split_def)
  next
    assume "0 < n \<and> r' = 0 \<and>
      (\<exists>a b. tk = take (n - 1) ps @ [\<lparr>Amount = a, Account = Account (ps ! (n - 1))\<rparr>] \<and>
             rm = [\<lparr>Amount = b, Account = Account (ps ! (n - 1))\<rparr>] \<and>
             0 < a \<and> 0 < b \<and> unat a + unat b = unat (Amount (ps ! (n - 1))))"
    then obtain a b where n0: "0 < n"
      and 1: "tk = take (n - 1) ps @ [\<lparr>Amount = a, Account = Account (ps ! (n - 1))\<rparr>]"
      and 2: "rm = [\<lparr>Amount = b, Account = Account (ps ! (n - 1))\<rparr>]"
      and 3: "unat a + unat b = unat (Amount (ps ! (n - 1)))"
      by blast
    have len: "length tk = n" using 1 n0 nle by simp
    show ?thesis
      unfolding order_preserving_split_def using 1 2 3 n0 nle len
      by (simp add: min_def)
  qed
qed

lemma take_walk_wsum:
  assumes "take_walk r ps = (r', n, tk, rm)"
  shows "wsum tk + wsum (rm @ drop n ps) = wsum ps"
proof -
  have nle: "n \<le> length ps" using assms by (rule take_walk_n_le)
  have td: "wsum (take k ps) + wsum (drop k ps) = wsum ps" for k
    by (metis append_take_drop_id map_append sum_list.append wsum_def)
  from take_walk_shape[OF assms] show ?thesis
  proof
    assume "rm = [] \<and> tk = take n ps"
    then show ?thesis using td by simp
  next
    assume "0 < n \<and> r' = 0 \<and>
      (\<exists>a b. tk = take (n - 1) ps @ [\<lparr>Amount = a, Account = Account (ps ! (n - 1))\<rparr>] \<and>
             rm = [\<lparr>Amount = b, Account = Account (ps ! (n - 1))\<rparr>] \<and>
             0 < a \<and> 0 < b \<and> unat a + unat b = unat (Amount (ps ! (n - 1))))"
    then obtain a b where n0: "0 < n"
      and 1: "tk = take (n - 1) ps @ [\<lparr>Amount = a, Account = Account (ps ! (n - 1))\<rparr>]"
      and 2: "rm = [\<lparr>Amount = b, Account = Account (ps ! (n - 1))\<rparr>]"
      and 3: "unat a + unat b = unat (Amount (ps ! (n - 1)))"
      by blast
    have "unat a + unat b < 2 ^ LENGTH(64)"
      using 3 unsigned_less[of "Amount (ps ! (n - 1))"] by simp
    then have "unat (a + b) = unat a + unat b" by (rule unat_add_lem[THEN iffD1])
    then have ab: "a + b = Amount (ps ! (n - 1))"
      using 3 by (simp add: word_unat_eq_iff)
    have lt: "n - 1 < length ps" using n0 nle by simp
    have "drop (n - 1) ps = ps ! (n - 1) # drop n ps"
      using Cons_nth_drop_Suc[OF lt] n0 by simp
    then have D: "wsum (drop (n - 1) ps) = Amount (ps ! (n - 1)) + wsum (drop n ps)"
      by (simp add: wsum_def)
    have "wsum tk + wsum (rm @ drop n ps) = wsum (take (n - 1) ps) + ((a + b) + wsum (drop n ps))"
      by (simp add: 1 2 wsum_def add.assoc)
    also have "\<dots> = wsum (take (n - 1) ps) + wsum (drop (n - 1) ps)"
      by (simp only: ab D)
    also have "\<dots> = wsum ps" by (rule td)
    finally show ?thesis .
  qed
qed

lemma Take_walk:
  "Take f amount =
     (case take_walk amount (Parts f) of (r', n, tk, rm) \<Rightarrow>
        if r' \<noteq> 0 then
          (if Infinite f then
             Inr (\<lparr>Asset = Asset f, Parts = tk @ [\<lparr>Amount = r', Account = ''world''\<rparr>],
                   Infinite = False\<rparr>,
                  \<lparr>Asset = Asset f, Parts = rm @ drop n (Parts f), Infinite = True\<rparr>)
           else Inl ''insufficient funding'')
        else Inr (\<lparr>Asset = Asset f, Parts = tk, Infinite = False\<rparr>,
                  \<lparr>Asset = Asset f, Parts = rm @ drop n (Parts f), Infinite = Infinite f\<rparr>))"
  by (simp add: Take_def take_loop_walk copy_loop_drop Let_def split: prod.splits)

lemma TakeMax_walk:
  "TakeMax f amount =
     (case take_walk amount (Parts f) of (r', n, tk, rm) \<Rightarrow>
        if r' \<noteq> 0 \<and> Infinite f then
          (\<lparr>Asset = Asset f, Parts = tk @ [\<lparr>Amount = r', Account = ''world''\<rparr>],
            Infinite = False\<rparr>,
           \<lparr>Asset = Asset f, Parts = rm @ drop n (Parts f), Infinite = True\<rparr>)
        else (\<lparr>Asset = Asset f, Parts = tk, Infinite = False\<rparr>,
              \<lparr>Asset = Asset f, Parts = rm @ drop n (Parts f), Infinite = Infinite f\<rparr>))"
  by (simp add: TakeMax_def take_loop_walk copy_loop_drop Let_def split: prod.splits)

section \<open>Take\<close>

text \<open>
  Claim C1. For every finite funding \<open>f\<close> whose part amounts are all positive and every
  amount \<open>m\<close> with \<open>m \<le> Total(f)\<close>, \<open>Take(f, m)\<close> succeeds and returns \<open>(t, r)\<close>
  with \<open>Total(t) = m\<close> and \<open>Total(r) = Total(f) - m\<close>, and \<open>t.parts\<close> followed by
  \<open>r.parts\<close> is \<open>f.parts\<close> in order, with at most the part at the split point divided
  into two parts of the same account whose amounts add up to the original amount.
  \<open>Total\<close> is the function of the code, the sum in \<open>uint64\<close>.
\<close>

theorem Take_partitions:
  assumes fin: "\<not> Infinite f"
    and pos: "\<forall>p\<in>set (Parts f). 0 < Amount p"
    and T0: "Total f = Inr tot"
    and le: "m \<le> tot"
  shows "\<exists>t r. Take f m = Inr (t, r) \<and> Total t = Inr m \<and> Total r = Inr (tot - m) \<and>
               Asset t = Asset f \<and> Asset r = Asset f \<and>
               order_preserving_split (Parts f) (Parts t) (Parts r)"
proof -
  obtain r' n tk rm where w: "take_walk m (Parts f) = (r', n, tk, rm)"
    by (cases "take_walk m (Parts f)") auto
  have total: "tot = wsum (Parts f)" using T0 fin by (simp add: Total_finite)
  have "unat m \<le> unat (wsum (Parts f))" using le total by (simp add: word_le_nat_alt)
  then have "unat m \<le> nsum (Parts f)" using unat_wsum_le[of "Parts f"] by simp
  then have r': "r' = 0" by (rule take_walk_enough[OF w])
  let ?t = "\<lparr>Asset = Asset f, Parts = tk, Infinite = False\<rparr>"
  let ?r = "\<lparr>Asset = Asset f, Parts = rm @ drop n (Parts f), Infinite = Infinite f\<rparr>"
  have T: "Take f m = Inr (?t, ?r)" by (simp add: Take_walk w r')
  have "nsum tk = unat m" using take_walk_sum[OF w] r' by simp
  then have "unat (wsum tk) = unat m"
    using unat_wsum_eq[of tk] unsigned_less[of m] by simp
  then have tk: "wsum tk = m" by (simp add: word_unat_eq_iff)
  have "wsum tk + wsum (rm @ drop n (Parts f)) = tot"
    using take_walk_wsum[OF w] total by simp
  then have rm: "wsum (rm @ drop n (Parts f)) = tot - m" using tk by auto
  have "Total ?t = Inr m" using tk by (simp add: Total_finite)
  moreover have "Total ?r = Inr (tot - m)" using rm fin by (simp add: Total_finite)
  moreover have "order_preserving_split (Parts f) (Parts ?t) (Parts ?r)"
    using take_walk_split[OF w] by simp
  ultimately show ?thesis using T by simp
qed

theorem Take_partitions_witness:
  "\<not> Infinite \<lparr>Asset = ''COIN'',
       Parts = [\<lparr>Amount = 70, Account = ''aaa''\<rparr>, \<lparr>Amount = 30, Account = ''bbb''\<rparr>,
                \<lparr>Amount = 50, Account = ''ccc''\<rparr>], Infinite = False\<rparr> \<and>
   Total \<lparr>Asset = ''COIN'',
       Parts = [\<lparr>Amount = 70, Account = ''aaa''\<rparr>, \<lparr>Amount = 30, Account = ''bbb''\<rparr>,
                \<lparr>Amount = 50, Account = ''ccc''\<rparr>], Infinite = False\<rparr> = Inr 150 \<and>
   (80 :: u64) \<le> 150 \<and>
   (\<exists>t r. Take \<lparr>Asset = ''COIN'',
       Parts = [\<lparr>Amount = 70, Account = ''aaa''\<rparr>, \<lparr>Amount = 30, Account = ''bbb''\<rparr>,
                \<lparr>Amount = 50, Account = ''ccc''\<rparr>], Infinite = False\<rparr> 80 = Inr (t, r) \<and>
      Total t = Inr 80 \<and> Total r = Inr 70 \<and> Asset t = ''COIN'' \<and> Asset r = ''COIN'' \<and>
      order_preserving_split
        [\<lparr>Amount = 70, Account = ''aaa''\<rparr>, \<lparr>Amount = 30, Account = ''bbb''\<rparr>,
         \<lparr>Amount = 50, Account = ''ccc''\<rparr>] (Parts t) (Parts r))"
proof -
  let ?f = "\<lparr>Asset = ''COIN'',
       Parts = [\<lparr>Amount = 70, Account = ''aaa''\<rparr>, \<lparr>Amount = 30, Account = ''bbb''\<rparr>,
                \<lparr>Amount = 50, Account = ''ccc''\<rparr>], Infinite = False\<rparr>"
  have h1: "\<not> Infinite ?f" by simp
  have h2: "\<forall>p\<in>set (Parts ?f). 0 < Amount p" by simp
  have h3: "Total ?f = Inr 150" by (simp add: Total_def)
  have h4: "(80 :: u64) \<le> 150" by simp
  from Take_partitions[OF h1 h2 h3 h4] h3 h4 show ?thesis by simp
qed

text \<open>The test \<open>TestFundingTake\<close> of the repository, evaluated on the model.\<close>

lemma Take_example:
  "Take \<lparr>Asset = ''COIN'',
       Parts = [\<lparr>Amount = 70, Account = ''aaa''\<rparr>, \<lparr>Amount = 30, Account = ''bbb''\<rparr>,
                \<lparr>Amount = 50, Account = ''ccc''\<rparr>], Infinite = False\<rparr> 80 =
   Inr (\<lparr>Asset = ''COIN'',
         Parts = [\<lparr>Amount = 70, Account = ''aaa''\<rparr>, \<lparr>Amount = 10, Account = ''bbb''\<rparr>],
         Infinite = False\<rparr>,
        \<lparr>Asset = ''COIN'',
         Parts = [\<lparr>Amount = 20, Account = ''bbb''\<rparr>, \<lparr>Amount = 50, Account = ''ccc''\<rparr>],
         Infinite = False\<rparr>)"
  by (simp add: Take_def take_loop.simps copy_loop.simps)

section \<open>TakeMax\<close>

text \<open>
  Claim C4, as amended. For every finite funding \<open>f\<close> whose part amounts are all
  positive and whose exact sum of amounts fits in a \<open>uint64\<close>, and every amount \<open>m\<close>,
  \<open>TakeMax(f, m)\<close> returns exactly the pair that \<open>Take(f, min(m, Total(f)))\<close> returns.
  \<open>TakeMax\<close> has no error result: it returns a pair on every funding.
\<close>

theorem TakeMax_eq_Take:
  assumes fin: "\<not> Infinite f"
    and pos: "\<forall>p\<in>set (Parts f). 0 < Amount p"
    and nov: "(\<Sum>p\<leftarrow>Parts f. unat (Amount p)) < 2 ^ 64"
  shows "\<exists>tot. Total f = Inr tot \<and> Take f (min m tot) = Inr (TakeMax f m)"
proof -
  let ?ps = "Parts f"
  have nov': "nsum ?ps < 2 ^ 64" using nov by (simp add: nsum_def)
  have tot: "Total f = Inr (wsum ?ps)" using fin by (simp add: Total_finite)
  have un: "unat (wsum ?ps) = nsum ?ps" using nov' by (rule unat_wsum_eq)
  have "Take f (min m (wsum ?ps)) = Inr (TakeMax f m)"
  proof (cases "m \<le> wsum ?ps")
    case True
    obtain r' n tk rm where w: "take_walk m ?ps = (r', n, tk, rm)"
      by (cases "take_walk m ?ps") auto
    have "unat m \<le> nsum ?ps" using True un by (simp add: word_le_nat_alt)
    then have "r' = 0" by (rule take_walk_enough[OF w])
    then show ?thesis using True w by (simp add: Take_walk TakeMax_walk min_def)
  next
    case False
    then have lt: "wsum ?ps < m" by simp
    then have "nsum ?ps \<le> unat m" using un by (simp add: word_less_nat_alt)
    then have wm: "take_walk m ?ps = (m - wsum ?ps, length ?ps, ?ps, [])"
      using pos by (simp add: take_walk_all)
    have "nsum ?ps \<le> unat (wsum ?ps)" using un by simp
    then have wt: "take_walk (wsum ?ps) ?ps = (0, length ?ps, ?ps, [])"
      using pos by (simp add: take_walk_all)
    show ?thesis using False fin wm wt by (simp add: Take_walk TakeMax_walk min_def)
  qed
  then show ?thesis using tot by simp
qed

theorem TakeMax_eq_Take_witness:
  "(\<Sum>p\<leftarrow>[\<lparr>Amount = 30 :: u64, Account = ''aaa''\<rparr>]. unat (Amount p)) < 2 ^ 64 \<and>
   (\<exists>tot. Total \<lparr>Asset = ''COIN'', Parts = [\<lparr>Amount = 30, Account = ''aaa''\<rparr>],
                    Infinite = False\<rparr> = Inr tot \<and>
      Take \<lparr>Asset = ''COIN'', Parts = [\<lparr>Amount = 30, Account = ''aaa''\<rparr>], Infinite = False\<rparr>
        (min 80 tot) =
      Inr (TakeMax \<lparr>Asset = ''COIN'', Parts = [\<lparr>Amount = 30, Account = ''aaa''\<rparr>],
                    Infinite = False\<rparr> 80))"
proof -
  let ?f = "\<lparr>Asset = ''COIN'', Parts = [\<lparr>Amount = 30, Account = ''aaa''\<rparr>], Infinite = False\<rparr>"
  have h1: "\<not> Infinite ?f" by simp
  have h2: "\<forall>p\<in>set (Parts ?f). 0 < Amount p" by simp
  have h3: "(\<Sum>p\<leftarrow>Parts ?f. unat (Amount p)) < 2 ^ 64" by simp
  from TakeMax_eq_Take[OF h1 h2 h3, of 80] h3 show ?thesis by simp
qed

text \<open>
  Without the bound on the sum the equation fails: the amounts below add up to
  \<open>2^64 + 1\<close>, \<open>Total\<close> wraps around to 1, and \<open>TakeMax\<close> of 5 takes 5 where
  \<open>Take\<close> of \<open>min(5, 1)\<close> takes 1.
\<close>

theorem TakeMax_eq_Take_counterexample:
  "\<not> Infinite \<lparr>Asset = ''COIN'',
       Parts = [\<lparr>Amount = 18446744073709551615, Account = ''aaa''\<rparr>,
                \<lparr>Amount = 2, Account = ''bbb''\<rparr>], Infinite = False\<rparr> \<and>
   list_all (\<lambda>p. 0 < Amount p)
     (Parts \<lparr>Asset = ''COIN'',
       Parts = [\<lparr>Amount = 18446744073709551615, Account = ''aaa''\<rparr>,
                \<lparr>Amount = 2, Account = ''bbb''\<rparr>], Infinite = False\<rparr>) \<and>
   Total \<lparr>Asset = ''COIN'',
       Parts = [\<lparr>Amount = 18446744073709551615, Account = ''aaa''\<rparr>,
                \<lparr>Amount = 2, Account = ''bbb''\<rparr>], Infinite = False\<rparr> = Inr 1 \<and>
   TakeMax \<lparr>Asset = ''COIN'',
       Parts = [\<lparr>Amount = 18446744073709551615, Account = ''aaa''\<rparr>,
                \<lparr>Amount = 2, Account = ''bbb''\<rparr>], Infinite = False\<rparr> 5 =
     (\<lparr>Asset = ''COIN'', Parts = [\<lparr>Amount = 5, Account = ''aaa''\<rparr>], Infinite = False\<rparr>,
      \<lparr>Asset = ''COIN'',
       Parts = [\<lparr>Amount = 18446744073709551610, Account = ''aaa''\<rparr>,
                \<lparr>Amount = 2, Account = ''bbb''\<rparr>], Infinite = False\<rparr>) \<and>
   Take \<lparr>Asset = ''COIN'',
       Parts = [\<lparr>Amount = 18446744073709551615, Account = ''aaa''\<rparr>,
                \<lparr>Amount = 2, Account = ''bbb''\<rparr>], Infinite = False\<rparr> (min 5 1) =
     Inr (\<lparr>Asset = ''COIN'', Parts = [\<lparr>Amount = 1, Account = ''aaa''\<rparr>], Infinite = False\<rparr>,
      \<lparr>Asset = ''COIN'',
       Parts = [\<lparr>Amount = 18446744073709551614, Account = ''aaa''\<rparr>,
                \<lparr>Amount = 2, Account = ''bbb''\<rparr>], Infinite = False\<rparr>) \<and>
   Take \<lparr>Asset = ''COIN'',
       Parts = [\<lparr>Amount = 18446744073709551615, Account = ''aaa''\<rparr>,
                \<lparr>Amount = 2, Account = ''bbb''\<rparr>], Infinite = False\<rparr> (min 5 1) \<noteq>
     Inr (TakeMax \<lparr>Asset = ''COIN'',
       Parts = [\<lparr>Amount = 18446744073709551615, Account = ''aaa''\<rparr>,
                \<lparr>Amount = 2, Account = ''bbb''\<rparr>], Infinite = False\<rparr> 5)"
  by (simp add: Total_def Take_def TakeMax_def take_loop.simps copy_loop.simps)

section \<open>Equals\<close>

text \<open>What \<open>Equals\<close> compares: the asset and the parts, not the \<open>Infinite\<close> flag.\<close>

lemma Equals_iff: "Equals lhs rhs \<longleftrightarrow> Asset lhs = Asset rhs \<and> Parts lhs = Parts rhs"
proof -
  have "list_all (\<lambda>i. \<not> (Parts lhs ! i \<noteq> Parts rhs ! i)) [0..<length (Parts lhs)] \<longleftrightarrow>
        (\<forall>i<length (Parts lhs). Parts lhs ! i = Parts rhs ! i)"
    by (auto simp: list_all_iff)
  moreover have "Parts lhs = Parts rhs \<longleftrightarrow>
        length (Parts lhs) = length (Parts rhs) \<and>
        (\<forall>i<length (Parts lhs). Parts lhs ! i = Parts rhs ! i)"
    by (rule list_eq_iff_nth_eq)
  ultimately show ?thesis unfolding Equals_def by auto
qed

text \<open>
  Claim C9 says that two fundings that differ only in the \<open>Infinite\<close> flag are not
  equal. \<open>Equals\<close> never reads the flag: on a finite and an infinite funding with the
  same asset and parts it returns true.
\<close>

theorem Equals_ignores_Infinite:
  "Equals \<lparr>Asset = ''COIN'', Parts = [\<lparr>Amount = 10, Account = ''aaa''\<rparr>], Infinite = False\<rparr>
          \<lparr>Asset = ''COIN'', Parts = [\<lparr>Amount = 10, Account = ''aaa''\<rparr>], Infinite = True\<rparr>
   = True"
  by (simp add: Equals_def)

section \<open>Concat\<close>

text \<open>
  Claim C2, as amended. For every two fundings \<open>f\<close> and \<open>g\<close> of the same asset of
  which at least one is infinite, \<open>Concat(f, g)\<close> returns a funding whose infinite flag
  is true. When \<open>f\<close> is infinite its parts are exactly \<open>f.parts\<close>, with \<open>g.parts\<close>
  dropped. When \<open>f\<close> is finite (so \<open>g\<close> is the infinite one) its parts are
  \<open>f.parts\<close> followed by \<open>g.parts\<close>, the last part of \<open>f\<close> and the first part of
  \<open>g\<close> merged into one when they name the same account.
\<close>

theorem Concat_infinite:
  assumes "Asset f = Asset g" and "Infinite f \<or> Infinite g"
  shows "\<exists>res. Concat f g = Inr res \<and> Infinite res \<and> Asset res = Asset f \<and>
           (Infinite f \<longrightarrow> Parts res = Parts f) \<and>
           (\<not> Infinite f \<longrightarrow>
              Parts res =
                (if Parts f \<noteq> [] \<and> Parts g \<noteq> [] \<and>
                    Account (last (Parts f)) = Account (hd (Parts g))
                 then butlast (Parts f) @
                      [\<lparr>Amount = Amount (last (Parts f)) + Amount (hd (Parts g)),
                        Account = Account (last (Parts f))\<rparr>] @ tl (Parts g)
                 else Parts f @ Parts g))"
proof (cases "Infinite f")
  case True
  then show ?thesis using assms by (simp add: Concat_def)
next
  case False
  show ?thesis
  proof (cases "Parts f \<noteq> [] \<and> Parts g \<noteq> [] \<and> Account (last (Parts f)) = Account (hd (Parts g))")
    case True
    then have f: "Parts f \<noteq> []" and g: "Parts g \<noteq> []"
      and a: "Account (last (Parts f)) = Account (hd (Parts g))" by auto
    have l: "Parts f ! (length (Parts f) - 1) = last (Parts f)" using f by (simp add: last_conv_nth)
    have h: "Parts g ! 0 = hd (Parts g)" using g by (simp add: hd_conv_nth)
    have u: "(Parts f)[length (Parts f) - 1 := x] = butlast (Parts f) @ [x]" for x
      using f by (metis append_butlast_last_id length_butlast list_update_length)
    have d: "drop 1 (Parts g) = tl (Parts g)" by (simp add: drop_Suc)
    show ?thesis
      using False assms f g a
      by (simp add: Concat_def Let_def l h u d del: One_nat_def)
  next
    case c: False
    then have "\<not> (length (Parts f) > 0 \<and> length (Parts g) > 0 \<and>
                  Account (Parts f ! (length (Parts f) - 1)) = Account (Parts g ! 0))"
      by (auto simp: last_conv_nth hd_conv_nth)
    then show ?thesis using False assms c by (auto simp: Concat_def Let_def)
  qed
qed

theorem Concat_infinite_witness:
  "Asset \<lparr>Asset = ''EUR'', Parts = [], Infinite = True\<rparr> =
   Asset \<lparr>Asset = ''EUR'', Parts = [\<lparr>Amount = 2, Account = ''b''\<rparr>], Infinite = False\<rparr> \<and>
   (\<exists>res. Concat \<lparr>Asset = ''EUR'', Parts = [], Infinite = True\<rparr>
             \<lparr>Asset = ''EUR'', Parts = [\<lparr>Amount = 2, Account = ''b''\<rparr>], Infinite = False\<rparr>
           = Inr res \<and> Infinite res \<and> Asset res = ''EUR'' \<and> Parts res = [])"
  using Concat_infinite[of "\<lparr>Asset = ''EUR'', Parts = [], Infinite = True\<rparr>"
      "\<lparr>Asset = ''EUR'', Parts = [\<lparr>Amount = 2, Account = ''b''\<rparr>], Infinite = False\<rparr>"]
  by simp

text \<open>
  With \<open>f\<close> finite and \<open>g\<close> infinite the parts of \<open>g\<close> are appended, not dropped.
\<close>

theorem Concat_infinite_counterexample:
  "Concat \<lparr>Asset = ''EUR'', Parts = [\<lparr>Amount = 1, Account = ''a''\<rparr>], Infinite = False\<rparr>
          \<lparr>Asset = ''EUR'', Parts = [\<lparr>Amount = 2, Account = ''b''\<rparr>], Infinite = True\<rparr>
   = Inr \<lparr>Asset = ''EUR'',
          Parts = [\<lparr>Amount = 1, Account = ''a''\<rparr>, \<lparr>Amount = 2, Account = ''b''\<rparr>],
          Infinite = True\<rparr> \<and>
   Concat \<lparr>Asset = ''EUR'', Parts = [\<lparr>Amount = 1, Account = ''a''\<rparr>], Infinite = False\<rparr>
          \<lparr>Asset = ''EUR'', Parts = [\<lparr>Amount = 2, Account = ''b''\<rparr>], Infinite = True\<rparr>
   \<noteq> Inr \<lparr>Asset = ''EUR'', Parts = [\<lparr>Amount = 1, Account = ''a''\<rparr>], Infinite = True\<rparr>"
  by (simp add: Concat_def)

section \<open>Single instructions\<close>

lemmas exit_defs = EXIT_OK_def EXIT_FAIL_def EXIT_FAIL_INVALID_def EXIT_FAIL_INSUFFICIENT_FUNDS_def

lemmas pop_defs = pop_bind_def popValue_def popNumber_def popAccount_def popAsset_def
  popString_def popMonetary_def popPortion_def popAllotment_def popFunding_def

lemma tick_exec:
  "P m < length (Instructions (Program m)) \<Longrightarrow>
   decode_op ext (Instructions (Program m) ! P m) = Some opcode \<Longrightarrow>
   tick ext m =
     (case exec ext opcode m of
        Panic \<Rightarrow> Tick_panic
      | Invalid_pop \<Rightarrow> Tick_invalid_pop
      | Return code m' \<Rightarrow> Tick True code m'
      | Continue m' \<Rightarrow> after_switch m')"
  by (simp add: tick_def)

text \<open>
  Claim C5, as amended. For every pair of numbers \<open>a\<close> (second from top) and \<open>b\<close>
  (top) on the stack, \<open>ISUB\<close> pops both and pushes \<open>a - b\<close> computed in \<open>uint64\<close>:
  the difference when \<open>a \<ge> b\<close>, and \<open>2^64 + a - b\<close> when \<open>a < b\<close>. It does not
  fail: the tick goes on to the next instruction as after any other instruction.
\<close>

theorem ISUB_wraps:
  assumes "P m < length (Instructions (Program m))"
    and "decode_op ext (Instructions (Program m) ! P m) = Some OP_ISUB"
    and "Stack m = s @ [V_Number a, V_Number b]"
  shows "tick ext m = after_switch (m\<lparr>Stack := s @ [V_Number (a - b)]\<rparr>) \<and>
         unat (a - b) = (if unat b \<le> unat a then unat a - unat b
                         else 2 ^ 64 + unat a - unat b)"
proof -
  have "exec ext OP_ISUB m = Continue (m\<lparr>Stack := s @ [V_Number (a - b)]\<rparr>)"
    using assms(3) by (simp add: pop_defs pushValue_def butlast_append)
  then have "tick ext m = after_switch (m\<lparr>Stack := s @ [V_Number (a - b)]\<rparr>)"
    using assms(1,2) by (simp add: tick_exec del: exec.simps)
  moreover have "unat (a - b) = (if unat b \<le> unat a then unat a - unat b
                         else 2 ^ 64 + unat a - unat b)"
  proof (cases "b \<le> a")
    case True
    then show ?thesis by (simp add: unat_sub word_le_nat_alt)
  next
    case False
    then have lt: "unat a < unat b" by (simp add: word_le_nat_alt)
    have "unat (a - b) = (unat a + 2 ^ 64 - unat b) mod 2 ^ 64"
      using unat_sub_if_size[of a b] lt by (simp add: word_size)
    moreover have "unat b < 2 ^ 64" using unsigned_less[of b] by simp
    ultimately show ?thesis using lt by simp
  qed
  ultimately show ?thesis by simp
qed

theorem ISUB_wraps_witness:
  "tick sample_extern (sample_machine [5, 7] [V_Number 44, V_Number 2]) =
     Tick False 0 ((sample_machine [5, 7] [V_Number 44, V_Number 2])
                     \<lparr>Stack := [V_Number 42], P := 1\<rparr>)"
  using ISUB_wraps[of "sample_machine [5, 7] [V_Number 44, V_Number 2]" sample_extern "[]" 44 2]
  by (simp add: sample_machine_def sample_extern_def sample_decode_def after_switch_def)

text \<open>With 1 and 2 on the stack \<open>ISUB\<close> pushes \<open>2^64 - 1\<close> and execution continues.\<close>

theorem ISUB_negative_counterexample:
  "tick sample_extern (sample_machine [5, 7] [V_Number 1, V_Number 2]) =
     Tick False 0 ((sample_machine [5, 7] [V_Number 1, V_Number 2])
                     \<lparr>Stack := [V_Number 18446744073709551615], P := 1\<rparr>)"
  by (simp add: sample_machine_def sample_extern_def sample_decode_def after_switch_def
      tick_def pop_defs pushValue_def)

lemma unat_wsum_mod: "unat (wsum ps) = nsum ps mod 2 ^ 64"
proof (induction ps)
  case Nil
  then show ?case by (simp add: wsum_def nsum_def)
next
  case (Cons p ps)
  have "unat (Amount p + wsum ps) = (unat (Amount p) + unat (wsum ps)) mod 2 ^ 64"
    by (simp add: unat_word_ariths)
  also have "\<dots> = (unat (Amount p) + nsum ps mod 2 ^ 64) mod 2 ^ 64"
    by (simp only: Cons.IH)
  also have "\<dots> = (unat (Amount p) + nsum ps) mod 2 ^ 64"
    by (rule mod_add_right_eq)
  finally show ?case by (simp add: wsum_def nsum_def)
qed

text \<open>
  Claim C3, as amended. \<open>Funding.Total\<close> of a finite funding is the sum of its part
  amounts modulo \<open>2^64\<close>: the additions wrap around and nothing detects it.
  \<open>FUNDING_SUM\<close> on a finite funding pushes the funding back and then a monetary of that
  wrapped sum, and the tick goes on as after any other instruction; it halts with
  \<open>EXIT_FAIL_INVALID\<close> only when the funding is infinite.
\<close>

theorem FUNDING_SUM_wraps:
  assumes "P m < length (Instructions (Program m))"
    and "decode_op ext (Instructions (Program m) ! P m) = Some OP_FUNDING_SUM"
    and "Stack m = s @ [V_Funding f]"
  shows "(\<not> Infinite f \<longrightarrow>
            Total f = Inr (wsum (Parts f)) \<and>
            unat (wsum (Parts f)) = nsum (Parts f) mod 2 ^ 64 \<and>
            tick ext m = after_switch (m\<lparr>Stack := s @ [V_Funding f,
               V_Monetary \<lparr>Monetary_Asset = Asset f, Monetary_Amount = wsum (Parts f)\<rparr>]\<rparr>)) \<and>
         (Infinite f \<longrightarrow> tick ext m = Tick True EXIT_FAIL_INVALID (m\<lparr>Stack := s\<rparr>))"
proof (cases "Infinite f")
  case True
  then have "exec ext OP_FUNDING_SUM m = Return EXIT_FAIL_INVALID (m\<lparr>Stack := s\<rparr>)"
    using assms(3) by (simp add: pop_defs Total_def)
  then show ?thesis using True assms(1,2) by (simp add: tick_exec del: exec.simps)
next
  case False
  then have T: "Total f = Inr (wsum (Parts f))" by (rule Total_finite)
  have "exec ext OP_FUNDING_SUM m = Continue (m\<lparr>Stack := s @ [V_Funding f,
               V_Monetary \<lparr>Monetary_Asset = Asset f, Monetary_Amount = wsum (Parts f)\<rparr>]\<rparr>)"
    using assms(3) by (simp add: pop_defs T pushValue_def)
  then show ?thesis using False T assms(1,2) by (simp add: tick_exec unat_wsum_mod del: exec.simps)
qed

theorem FUNDING_SUM_wraps_witness:
  "tick sample_extern (sample_machine [16, 7]
      [V_Funding \<lparr>Asset = ''COIN'', Parts = [\<lparr>Amount = 70, Account = ''aaa''\<rparr>,
         \<lparr>Amount = 30, Account = ''bbb''\<rparr>], Infinite = False\<rparr>]) =
   Tick False 0 ((sample_machine [16, 7]
      [V_Funding \<lparr>Asset = ''COIN'', Parts = [\<lparr>Amount = 70, Account = ''aaa''\<rparr>,
         \<lparr>Amount = 30, Account = ''bbb''\<rparr>], Infinite = False\<rparr>])
      \<lparr>Stack := [V_Funding \<lparr>Asset = ''COIN'', Parts = [\<lparr>Amount = 70, Account = ''aaa''\<rparr>,
                    \<lparr>Amount = 30, Account = ''bbb''\<rparr>], Infinite = False\<rparr>,
                  V_Monetary \<lparr>Monetary_Asset = ''COIN'', Monetary_Amount = 100\<rparr>],
        P := 1\<rparr>)"
  using FUNDING_SUM_wraps[of "sample_machine [16, 7]
      [V_Funding \<lparr>Asset = ''COIN'', Parts = [\<lparr>Amount = 70, Account = ''aaa''\<rparr>,
         \<lparr>Amount = 30, Account = ''bbb''\<rparr>], Infinite = False\<rparr>]" sample_extern "[]"
      "\<lparr>Asset = ''COIN'', Parts = [\<lparr>Amount = 70, Account = ''aaa''\<rparr>,
         \<lparr>Amount = 30, Account = ''bbb''\<rparr>], Infinite = False\<rparr>"]
  by (simp add: sample_machine_def sample_extern_def sample_decode_def after_switch_def
      wsum_def)

text \<open>
  The amounts below add up to \<open>2^64\<close>. \<open>FUNDING_SUM\<close> pushes a monetary of amount 0
  and does not finish; run to its end, with two \<open>PRINT\<close>s emptying the stack, the
  program exits with \<open>EXIT_OK\<close>.
\<close>

theorem FUNDING_SUM_overflow_counterexample:
  "nsum [\<lparr>Amount = 18446744073709551615, Account = ''aaa''\<rparr>,
         \<lparr>Amount = 1, Account = ''bbb''\<rparr>] = 18446744073709551616 \<and>
   tick sample_extern (sample_machine [16, 6, 6]
      [V_Funding \<lparr>Asset = ''COIN'',
         Parts = [\<lparr>Amount = 18446744073709551615, Account = ''aaa''\<rparr>,
                  \<lparr>Amount = 1, Account = ''bbb''\<rparr>], Infinite = False\<rparr>]) =
   Tick False 0 ((sample_machine [16, 6, 6]
      [V_Funding \<lparr>Asset = ''COIN'',
         Parts = [\<lparr>Amount = 18446744073709551615, Account = ''aaa''\<rparr>,
                  \<lparr>Amount = 1, Account = ''bbb''\<rparr>], Infinite = False\<rparr>])
      \<lparr>Stack := [V_Funding \<lparr>Asset = ''COIN'',
                    Parts = [\<lparr>Amount = 18446744073709551615, Account = ''aaa''\<rparr>,
                             \<lparr>Amount = 1, Account = ''bbb''\<rparr>], Infinite = False\<rparr>,
                  V_Monetary \<lparr>Monetary_Asset = ''COIN'', Monetary_Amount = 0\<rparr>],
        P := 1\<rparr>) \<and>
   Execute sample_extern (sample_machine [16, 6, 6]
      [V_Funding \<lparr>Asset = ''COIN'',
         Parts = [\<lparr>Amount = 18446744073709551615, Account = ''aaa''\<rparr>,
                  \<lparr>Amount = 1, Account = ''bbb''\<rparr>], Infinite = False\<rparr>]) =
   Some (Inr (Run_exit EXIT_OK ((sample_machine [16, 6, 6]
      [V_Funding \<lparr>Asset = ''COIN'',
         Parts = [\<lparr>Amount = 18446744073709551615, Account = ''aaa''\<rparr>,
                  \<lparr>Amount = 1, Account = ''bbb''\<rparr>], Infinite = False\<rparr>])
      \<lparr>Stack := [],
        Printed := [V_Monetary \<lparr>Monetary_Asset = ''COIN'', Monetary_Amount = 0\<rparr>,
                    V_Funding \<lparr>Asset = ''COIN'',
                      Parts = [\<lparr>Amount = 18446744073709551615, Account = ''aaa''\<rparr>,
                               \<lparr>Amount = 1, Account = ''bbb''\<rparr>], Infinite = False\<rparr>],
        P := 3\<rparr>)))"
  by (simp add: sample_machine_def sample_extern_def sample_decode_def after_switch_def
      tick_def pop_defs pushValue_def Total_def nsum_def Execute_def Execute_loop.simps
      exit_defs)

lemma pop_fundings_all:
  "\<forall>f\<in>set gs. Asset f = asset \<Longrightarrow> Stack m = s @ map V_Funding gs \<Longrightarrow>
   pop_fundings (length gs) asset m acc = Continue (acc @ rev gs, m\<lparr>Stack := s\<rparr>)"
proof (induction gs arbitrary: m acc rule: rev_induct)
  case Nil
  then have "m\<lparr>Stack := s\<rparr> = m" by simp
  then show ?case by simp
next
  case (snoc g gs)
  have st: "Stack m = (s @ map V_Funding gs) @ [V_Funding g]" using snoc.prems(2) by simp
  have pop: "popFunding m = Some (g, m\<lparr>Stack := s @ map V_Funding gs\<rparr>)"
    by (simp add: popFunding_def popValue_def st del: append_assoc)
  have "pop_fundings (length gs) asset (m\<lparr>Stack := s @ map V_Funding gs\<rparr>) (acc @ [g]) =
        Continue ((acc @ [g]) @ rev gs, m\<lparr>Stack := s @ map V_Funding gs\<rparr>\<lparr>Stack := s\<rparr>)"
    using snoc.prems(1) by (intro snoc.IH) simp_all
  then show ?case using snoc.prems(1) by (simp add: pop pop_bind_def)
qed

lemma concat_loop_fold:
  "length frs = n \<Longrightarrow> i \<le> n \<Longrightarrow>
   concat_loop frs n i result = Concat_fold result (drop i (rev frs))"
proof (induction "n - i" arbitrary: i result)
  case 0
  then show ?case by (subst concat_loop.simps) simp
next
  case (Suc k)
  then have lt: "i < n" by simp
  have d: "drop i (rev frs) = rev frs ! i # drop (Suc i) (rev frs)"
    using lt Suc.prems(1) by (simp add: Cons_nth_drop_Suc)
  have nth: "rev frs ! i = frs ! (n - 1 - i)"
    using lt Suc.prems(1) by (simp add: rev_nth)
  have k: "k = n - Suc i" using Suc.hyps(2) by simp
  have IH: "concat_loop frs n (Suc i) r = Concat_fold r (drop (Suc i) (rev frs))" for r
    using Suc.hyps(1)[OF k Suc.prems(1)] lt by simp
  show ?case
    using lt by (subst concat_loop.simps) (simp add: d nth IH split: sum.splits)
qed

lemma Concat_same_asset:
  "Asset f = Asset g \<Longrightarrow> \<exists>res. Concat f g = Inr res \<and> Asset res = Asset f"
  by (simp add: Concat_def Let_def)

lemma Concat_fold_same_asset:
  "\<forall>f\<in>set fs. Asset f = Asset result \<Longrightarrow>
   \<exists>res. Concat_fold result fs = Inr res \<and> Asset res = Asset result"
proof (induction fs arbitrary: result)
  case Nil
  then show ?case by simp
next
  case (Cons f fs)
  have fa: "Asset result = Asset f" using Cons.prems by simp
  obtain r where r: "Concat result f = Inr r" and ra: "Asset r = Asset result"
    using Concat_same_asset[OF fa] by blast
  have "\<forall>g\<in>set fs. Asset g = Asset r"
  proof
    fix g assume "g \<in> set fs"
    then have "Asset g = Asset result" using Cons.prems by simp
    then show "Asset g = Asset r" by (simp only: ra)
  qed
  then obtain res where "Concat_fold r fs = Inr res" and "Asset res = Asset r"
    using Cons.IH by blast
  then show ?case by (simp add: r ra)
qed

text \<open>
  Claim C6, as amended. For every \<open>n \<ge> 1\<close> (below \<open>2^63\<close> and within what
  \<open>make\<close> can allocate) and every \<open>n\<close> same-asset fundings on the stack under the
  count, \<open>FUNDING_ASSEMBLE\<close> pops the count and the fundings and pushes the left fold of
  \<open>Concat\<close> over them taken from the deepest to the topmost: the parts of the deepest
  (first pushed) funding come first and those of the topmost funding last. Here \<open>fs\<close>
  lists the fundings as they lie on the stack, deepest first.
\<close>

theorem FUNDING_ASSEMBLE_order:
  assumes "P m < length (Instructions (Program m))"
    and "decode_op ext (Instructions (Program m) ! P m) = Some OP_FUNDING_ASSEMBLE"
    and "Stack m = s @ map V_Funding fs @ [V_Number n]"
    and "fs \<noteq> []" and "unat n = length fs"
    and "length fs \<le> make_limit ext" and "length fs < 2 ^ 63"
    and "\<forall>f\<in>set fs. Asset f = Asset (last fs)"
  shows "\<exists>result.
           Concat_fold \<lparr>Asset = Asset (last fs), Parts = [], Infinite = False\<rparr> fs = Inr result \<and>
           tick ext m = after_switch (m\<lparr>Stack := s @ [V_Funding result]\<rparr>)"
proof -
  let ?empty = "\<lparr>Asset = Asset (last fs), Parts = [], Infinite = False\<rparr>"
  obtain result where res: "Concat_fold ?empty fs = Inr result"
    using Concat_fold_same_asset[of fs ?empty] assms(8) by auto
  have sint: "sint n = int (length fs)"
  proof -
    have "uint n = int (unat n)" by simp
    also have "\<dots> = int (length fs)" by (simp only: assms(5))
    finally have "uint n = int (length fs)" .
    moreover have "signed_take_bit 63 (int (length fs)) = int (length fs)"
      using assms(7) by (intro signed_take_bit_int_eq_self) simp_all
    ultimately show ?thesis by (simp add: sint_uint)
  qed
  have n0: "sint n \<noteq> 0" using sint assms(4) by simp
  have nn: "nat (sint n) = length fs" using sint by simp
  obtain gs g where fs: "fs = gs @ [g]" using assms(4) by (meson rev_exhaust)
  have nn': "nat (sint n) = Suc (length gs)" using nn fs by simp
  have sn: "\<not> sint n < 0" using sint by simp
  have popn: "popNumber m = Some (n, m\<lparr>Stack := s @ map V_Funding gs @ [V_Funding g]\<rparr>)"
    using assms(3) by (simp add: popNumber_def popValue_def butlast_append fs)
  have popf: "popFunding (m\<lparr>Stack := s @ map V_Funding gs @ [V_Funding g]\<rparr>) =
              Some (g, m\<lparr>Stack := s @ map V_Funding gs\<rparr>)"
    by (simp add: popFunding_def popValue_def butlast_append)
  have all: "\<forall>f\<in>set gs. Asset f = Asset g" using assms(8) fs by simp
  have pf: "pop_fundings (length gs) (Asset g) (m\<lparr>Stack := s @ map V_Funding gs\<rparr>) [g] =
            Continue (g # rev gs, m\<lparr>Stack := s\<rparr>)"
    using pop_fundings_all[OF all, of "m\<lparr>Stack := s @ map V_Funding gs\<rparr>" s "[g]"] by simp
  have cl: "concat_loop (g # rev gs) (Suc (length gs)) 0
              \<lparr>Asset = Asset g, Parts = [], Infinite = False\<rparr> = Inr result"
    using concat_loop_fold[of "g # rev gs" "length fs" 0 ?empty] res by (simp add: fs)
  have ml: "\<not> Suc (length gs) > make_limit ext" using assms(6) fs by simp
  have "exec ext OP_FUNDING_ASSEMBLE m = Continue (m\<lparr>Stack := s @ [V_Funding result]\<rparr>)"
    using n0 sn ml
    by (simp add: popn popf pop_bind_def nn' pf cl pushValue_def)
  then show ?thesis using res assms(1,2) by (simp add: tick_exec del: exec.simps)
qed

theorem FUNDING_ASSEMBLE_order_witness:
  "tick sample_extern (sample_machine [15, 7]
     [V_Funding \<lparr>Asset = ''EUR'', Parts = [\<lparr>Amount = 1, Account = ''a''\<rparr>], Infinite = False\<rparr>,
      V_Funding \<lparr>Asset = ''EUR'', Parts = [\<lparr>Amount = 2, Account = ''b''\<rparr>], Infinite = False\<rparr>,
      V_Number 2]) =
   Tick False 0 ((sample_machine [15, 7]
     [V_Funding \<lparr>Asset = ''EUR'', Parts = [\<lparr>Amount = 1, Account = ''a''\<rparr>], Infinite = False\<rparr>,
      V_Funding \<lparr>Asset = ''EUR'', Parts = [\<lparr>Amount = 2, Account = ''b''\<rparr>], Infinite = False\<rparr>,
      V_Number 2])
     \<lparr>Stack := [V_Funding \<lparr>Asset = ''EUR'',
                   Parts = [\<lparr>Amount = 1, Account = ''a''\<rparr>, \<lparr>Amount = 2, Account = ''b''\<rparr>],
                   Infinite = False\<rparr>],
       P := 1\<rparr>)"
  using FUNDING_ASSEMBLE_order[of "sample_machine [15, 7]
     [V_Funding \<lparr>Asset = ''EUR'', Parts = [\<lparr>Amount = 1, Account = ''a''\<rparr>], Infinite = False\<rparr>,
      V_Funding \<lparr>Asset = ''EUR'', Parts = [\<lparr>Amount = 2, Account = ''b''\<rparr>], Infinite = False\<rparr>,
      V_Number 2]" sample_extern "[]"
     "[\<lparr>Asset = ''EUR'', Parts = [\<lparr>Amount = 1, Account = ''a''\<rparr>], Infinite = False\<rparr>,
       \<lparr>Asset = ''EUR'', Parts = [\<lparr>Amount = 2, Account = ''b''\<rparr>], Infinite = False\<rparr>]" 2]
  by (simp add: sample_machine_def sample_extern_def sample_decode_def after_switch_def
      Concat_def)

text \<open>
  With the funding of \<open>a\<close> below the funding of \<open>b\<close> on the stack, the result lists
  the part of \<open>a\<close> first; the concatenation with the topmost first would list \<open>b\<close>
  first.
\<close>

theorem FUNDING_ASSEMBLE_topmost_first_counterexample:
  "tick sample_extern (sample_machine [15, 7]
     [V_Funding \<lparr>Asset = ''EUR'', Parts = [\<lparr>Amount = 1, Account = ''a''\<rparr>], Infinite = False\<rparr>,
      V_Funding \<lparr>Asset = ''EUR'', Parts = [\<lparr>Amount = 2, Account = ''b''\<rparr>], Infinite = False\<rparr>,
      V_Number 2]) =
   Tick False 0 ((sample_machine [15, 7]
     [V_Funding \<lparr>Asset = ''EUR'', Parts = [\<lparr>Amount = 1, Account = ''a''\<rparr>], Infinite = False\<rparr>,
      V_Funding \<lparr>Asset = ''EUR'', Parts = [\<lparr>Amount = 2, Account = ''b''\<rparr>], Infinite = False\<rparr>,
      V_Number 2])
     \<lparr>Stack := [V_Funding \<lparr>Asset = ''EUR'',
                   Parts = [\<lparr>Amount = 1, Account = ''a''\<rparr>, \<lparr>Amount = 2, Account = ''b''\<rparr>],
                   Infinite = False\<rparr>],
       P := 1\<rparr>) \<and>
   Concat_fold \<lparr>Asset = ''EUR'', Parts = [], Infinite = False\<rparr>
     [\<lparr>Asset = ''EUR'', Parts = [\<lparr>Amount = 2, Account = ''b''\<rparr>], Infinite = False\<rparr>,
      \<lparr>Asset = ''EUR'', Parts = [\<lparr>Amount = 1, Account = ''a''\<rparr>], Infinite = False\<rparr>] =
   Inr \<lparr>Asset = ''EUR'',
        Parts = [\<lparr>Amount = 2, Account = ''b''\<rparr>, \<lparr>Amount = 1, Account = ''a''\<rparr>],
        Infinite = False\<rparr> \<and>
   tick sample_extern (sample_machine [15, 7]
     [V_Funding \<lparr>Asset = ''EUR'', Parts = [\<lparr>Amount = 1, Account = ''a''\<rparr>], Infinite = False\<rparr>,
      V_Funding \<lparr>Asset = ''EUR'', Parts = [\<lparr>Amount = 2, Account = ''b''\<rparr>], Infinite = False\<rparr>,
      V_Number 2]) \<noteq>
   Tick False 0 ((sample_machine [15, 7]
     [V_Funding \<lparr>Asset = ''EUR'', Parts = [\<lparr>Amount = 1, Account = ''a''\<rparr>], Infinite = False\<rparr>,
      V_Funding \<lparr>Asset = ''EUR'', Parts = [\<lparr>Amount = 2, Account = ''b''\<rparr>], Infinite = False\<rparr>,
      V_Number 2])
     \<lparr>Stack := [V_Funding \<lparr>Asset = ''EUR'',
                   Parts = [\<lparr>Amount = 2, Account = ''b''\<rparr>, \<lparr>Amount = 1, Account = ''a''\<rparr>],
                   Infinite = False\<rparr>],
       P := 1\<rparr>)"
  by (simp add: sample_machine_def sample_extern_def sample_decode_def after_switch_def
      tick_def pop_defs pushValue_def Concat_def concat_loop.simps exit_defs)

lemma lookup_set_account:
  "lookup_account (set_account m a x) a' = (if a' = a then Some x else lookup_account m a')"
  by (simp add: lookup_account_def set_account_def split: option.splits)

lemma repay_loop_None_iff:
  "repay_loop m asset ps = None \<longleftrightarrow>
     (\<exists>p\<in>set ps. Account p \<noteq> ''world'' \<and> lookup_account m (Account p) = None)"
proof (induction ps arbitrary: m)
  case Nil
  then show ?case by simp
next
  case (Cons p ps)
  show ?case
  proof (cases "Account p = ''world''")
    case True
    then show ?thesis using Cons.IH[of m] by simp
  next
    case nw: False
    show ?thesis
    proof (cases "lookup_account m (Account p)")
      case None
      then show ?thesis using nw by auto
    next
      case (Some acc)
      let ?m = "set_account m (Account p) (acc(asset \<mapsto> read_or_zero acc asset + Amount p))"
      have same: "lookup_account ?m a = None \<longleftrightarrow> lookup_account m a = None" for a
        using Some by (simp add: lookup_set_account)
      show ?thesis using nw Some Cons.IH[of ?m] by (simp add: same)
    qed
  qed
qed

lemma lookup_account_Stack [simp]: "lookup_account (m\<lparr>Stack := s\<rparr>) a = lookup_account m a"
  by (simp add: lookup_account_def)

lemma after_switch_not_panic: "after_switch m \<noteq> Tick_panic"
  by (simp add: after_switch_def Let_def)

text \<open>
  Claim C10, as amended. \<open>REPAY\<close> on a funding panics exactly when some part that is
  not of \<open>world\<close> names an account without an entry in the balances map (the write
  goes into a nil inner map); otherwise it credits every such part and the tick goes on.
  The entry for the funding's asset need not exist beforehand: for an account that has an
  entry, \<open>repay\<close> creates the asset's balance, starting from zero. \<open>credit\<close> on an
  account without an entry changes nothing.
\<close>

theorem REPAY_needs_tracked_accounts:
  assumes "P m < length (Instructions (Program m))"
    and "decode_op ext (Instructions (Program m) ! P m) = Some OP_REPAY"
    and "Stack m = s @ [V_Funding f]"
  shows "(tick ext m = Tick_panic \<longleftrightarrow>
            (\<exists>p\<in>set (Parts f). Account p \<noteq> ''world'' \<and> lookup_account m (Account p) = None)) \<and>
         (tick ext m \<noteq> Tick_panic \<longrightarrow>
            (\<exists>m'. repay (m\<lparr>Stack := s\<rparr>) f = Some m' \<and> tick ext m = after_switch m')) \<and>
         (\<forall>acc a x. lookup_account m a = Some acc \<and> a \<noteq> ''world'' \<longrightarrow>
            repay m \<lparr>Asset = Asset f, Parts = [\<lparr>Amount = x, Account = a\<rparr>], Infinite = False\<rparr> =
              Some (set_account m a (acc(Asset f \<mapsto> read_or_zero acc (Asset f) + x)))) \<and>
         (\<forall>a g. lookup_account m a = None \<longrightarrow> credit m a g = m)"
proof -
  have ex: "exec ext OP_REPAY m =
        (case repay (m\<lparr>Stack := s\<rparr>) f of None \<Rightarrow> Panic | Some m' \<Rightarrow> Continue m')"
    using assms(3) by (simp add: pop_defs)
  have t: "tick ext m =
        (case repay (m\<lparr>Stack := s\<rparr>) f of None \<Rightarrow> Tick_panic | Some m' \<Rightarrow> after_switch m')"
    using assms(1,2) by (simp add: tick_exec ex del: exec.simps split: option.splits)
  have none: "repay (m\<lparr>Stack := s\<rparr>) f = None \<longleftrightarrow>
      (\<exists>p\<in>set (Parts f). Account p \<noteq> ''world'' \<and> lookup_account m (Account p) = None)"
    by (simp add: repay_def repay_loop_None_iff)
  have 1: "tick ext m = Tick_panic \<longleftrightarrow>
      (\<exists>p\<in>set (Parts f). Account p \<noteq> ''world'' \<and> lookup_account m (Account p) = None)"
    unfolding none[symmetric] t by (simp add: after_switch_not_panic split: option.splits)
  have 2: "tick ext m \<noteq> Tick_panic \<longrightarrow>
      (\<exists>m'. repay (m\<lparr>Stack := s\<rparr>) f = Some m' \<and> tick ext m = after_switch m')"
    unfolding t by (simp split: option.splits)
  have 3: "\<forall>acc a x. lookup_account m a = Some acc \<and> a \<noteq> ''world'' \<longrightarrow>
      repay m \<lparr>Asset = Asset f, Parts = [\<lparr>Amount = x, Account = a\<rparr>], Infinite = False\<rparr> =
        Some (set_account m a (acc(Asset f \<mapsto> read_or_zero acc (Asset f) + x)))"
    by (simp add: repay_def)
  have 4: "\<forall>a g. lookup_account m a = None \<longrightarrow> credit m a g = m"
    by (simp add: credit_def)
  from 1 2 3 4 show ?thesis by blast
qed

theorem REPAY_needs_tracked_accounts_witness:
  "tick sample_extern (sample_machine [19, 7]
     [V_Funding \<lparr>Asset = ''EUR'', Parts = [\<lparr>Amount = 5, Account = ''a''\<rparr>], Infinite = False\<rparr>])
   = Tick_panic \<and>
   credit (sample_machine [19, 7]
     [V_Funding \<lparr>Asset = ''EUR'', Parts = [\<lparr>Amount = 5, Account = ''a''\<rparr>], Infinite = False\<rparr>])
     ''a'' \<lparr>Asset = ''EUR'', Parts = [\<lparr>Amount = 5, Account = ''a''\<rparr>], Infinite = False\<rparr>
   = sample_machine [19, 7]
     [V_Funding \<lparr>Asset = ''EUR'', Parts = [\<lparr>Amount = 5, Account = ''a''\<rparr>], Infinite = False\<rparr>]"
  using REPAY_needs_tracked_accounts[of "sample_machine [19, 7]
     [V_Funding \<lparr>Asset = ''EUR'', Parts = [\<lparr>Amount = 5, Account = ''a''\<rparr>], Infinite = False\<rparr>]"
     sample_extern "[]"
     "\<lparr>Asset = ''EUR'', Parts = [\<lparr>Amount = 5, Account = ''a''\<rparr>], Infinite = False\<rparr>"]
  by (simp add: sample_machine_def sample_extern_def sample_decode_def lookup_account_def)

text \<open>
  The account \<open>a\<close> has an entry that holds no balance for \<open>EUR\<close>: \<open>REPAY\<close> of 5
  \<open>EUR\<close> to it does not panic and leaves it with a balance of 5.
\<close>

theorem REPAY_untracked_asset_counterexample:
  "lookup_account ((sample_machine [19, 7]
      [V_Funding \<lparr>Asset = ''EUR'', Parts = [\<lparr>Amount = 5, Account = ''a''\<rparr>], Infinite = False\<rparr>])
      \<lparr>Balances := Some [''a'' \<mapsto> Map.empty]\<rparr>) ''a'' = Some Map.empty \<and>
   tick sample_extern ((sample_machine [19, 7]
      [V_Funding \<lparr>Asset = ''EUR'', Parts = [\<lparr>Amount = 5, Account = ''a''\<rparr>], Infinite = False\<rparr>])
      \<lparr>Balances := Some [''a'' \<mapsto> Map.empty]\<rparr>) =
   Tick False 0 ((sample_machine [19, 7]
      [V_Funding \<lparr>Asset = ''EUR'', Parts = [\<lparr>Amount = 5, Account = ''a''\<rparr>], Infinite = False\<rparr>])
      \<lparr>Balances := Some [''a'' \<mapsto> [''EUR'' \<mapsto> 5]], Stack := [], P := 1\<rparr>)"
  by (simp add: sample_machine_def sample_extern_def sample_decode_def after_switch_def
      tick_def pop_defs repay_def lookup_account_def set_account_def read_or_zero_def)

section \<open>What every instruction keeps\<close>

lemma frame_eq_refl [simp]: "frame_eq m m"
  by (simp add: frame_eq_def)

lemma frame_eq_trans: "frame_eq a b \<Longrightarrow> frame_eq b c \<Longrightarrow> frame_eq a c"
  unfolding frame_eq_def by metis

lemma frame_eq_step: "frame_eq a b \<Longrightarrow> step_frame b st \<Longrightarrow> step_frame a st"
  by (cases st) (auto simp: frame_eq_def frame_le_def step_frame_def)

lemma no_world_entry_Balances:
  "Balances m' = Balances m \<Longrightarrow> no_world_entry m' = no_world_entry m"
  by (simp add: no_world_entry_def lookup_account_def)

lemma frame_eq_same:
  "Program m' = Program m \<Longrightarrow> P m' = P m \<Longrightarrow> Balances m' = Balances m \<Longrightarrow> frame_eq m m'"
  unfolding frame_eq_def using no_world_entry_Balances[of m' m] by blast

lemma popValue_frame: "popValue m = Some (v, m') \<Longrightarrow> frame_eq m m'"
proof -
  assume "popValue m = Some (v, m')"
  then have "m' = m\<lparr>Stack := butlast (Stack m)\<rparr>"
    by (simp add: popValue_def split: if_splits)
  then show ?thesis by (intro frame_eq_same) simp_all
qed

lemma popNumber_frame: "popNumber m = Some (v, m') \<Longrightarrow> frame_eq m m'"
  by (auto simp: popNumber_def dest: popValue_frame split: option.splits prod.splits Value.splits)

lemma popAccount_frame: "popAccount m = Some (v, m') \<Longrightarrow> frame_eq m m'"
  by (auto simp: popAccount_def dest: popValue_frame split: option.splits prod.splits Value.splits)

lemma popAsset_frame: "popAsset m = Some (v, m') \<Longrightarrow> frame_eq m m'"
  by (auto simp: popAsset_def dest: popValue_frame split: option.splits prod.splits Value.splits)

lemma popString_frame: "popString m = Some (v, m') \<Longrightarrow> frame_eq m m'"
  by (auto simp: popString_def dest: popValue_frame split: option.splits prod.splits Value.splits)

lemma popMonetary_frame: "popMonetary m = Some (v, m') \<Longrightarrow> frame_eq m m'"
  by (auto simp: popMonetary_def dest: popValue_frame split: option.splits prod.splits Value.splits)

lemma popPortion_frame: "popPortion m = Some (v, m') \<Longrightarrow> frame_eq m m'"
  by (auto simp: popPortion_def dest: popValue_frame split: option.splits prod.splits Value.splits)

lemma popAllotment_frame: "popAllotment m = Some (v, m') \<Longrightarrow> frame_eq m m'"
  by (auto simp: popAllotment_def dest: popValue_frame split: option.splits prod.splits Value.splits)

lemma popFunding_frame: "popFunding m = Some (v, m') \<Longrightarrow> frame_eq m m'"
  by (auto simp: popFunding_def dest: popValue_frame split: option.splits prod.splits Value.splits)




lemmas pop_frames = popValue_frame popNumber_frame popAccount_frame popAsset_frame
  popString_frame popMonetary_frame popPortion_frame popAllotment_frame popFunding_frame

lemma step_frame_bind:
  assumes "\<And>v m1. r = Some (v, m1) \<Longrightarrow> frame_eq m m1"
    and "\<And>v m1. r = Some (v, m1) \<Longrightarrow> step_frame m1 (k v m1)"
  shows "step_frame m (pop_bind r k)"
proof (cases r)
  case None
  then show ?thesis by (simp add: pop_bind_def step_frame_def)
next
  case (Some a)
  obtain v m1 where a: "a = (v, m1)" by (cases a)
  have "step_frame m (k v m1)"
    using assms(1)[of v m1] assms(2)[of v m1] Some a by (auto intro: frame_eq_step)
  then show ?thesis using Some a by (simp add: pop_bind_def)
qed

lemma step_frame_Continue: "frame_le m m' \<Longrightarrow> step_frame m (Continue m')"
  by (simp add: step_frame_def)

lemma step_frame_Return: "frame_eq m m' \<Longrightarrow> step_frame m (Return c m')"
  by (simp add: step_frame_def)

lemma frame_le_same:
  "Program m' = Program m \<Longrightarrow> P m \<le> P m' \<Longrightarrow> Balances m' = Balances m \<Longrightarrow> frame_le m m'"
  unfolding frame_le_def using no_world_entry_Balances[of m' m] by blast

lemma frame_eq_le: "frame_eq m m' \<Longrightarrow> frame_le m m'"
  by (simp add: frame_eq_def frame_le_def)

lemma pushValue_frame [simp]: "frame_eq m (pushValue m v)"
  by (simp add: pushValue_def frame_eq_same)

lemma set_account_frame: "a \<noteq> ''world'' \<Longrightarrow> frame_eq m (set_account m a x)"
  by (simp add: frame_eq_def set_account_def no_world_entry_def lookup_account_def
      split: option.splits)

lemma withdrawAll_frame: "withdrawAll m a asset = Inr (f, m') \<Longrightarrow> frame_eq m m'"
  by (auto simp: withdrawAll_def set_account_frame split: if_splits option.splits)

lemma credit_frame: "frame_eq m (credit m a f)"
  by (simp add: credit_def set_account_frame split: option.splits)

lemma repay_loop_frame: "repay_loop m asset ps = Some m' \<Longrightarrow> frame_eq m m'"
proof (induction ps arbitrary: m)
  case Nil
  then show ?case by simp
next
  case (Cons p ps)
  show ?case
  proof (cases "Account p = ''world''")
    case True
    then show ?thesis using Cons by simp
  next
    case False
    then obtain acc where "lookup_account m (Account p) = Some acc"
      and r: "repay_loop (set_account m (Account p)
                (acc(asset \<mapsto> read_or_zero acc asset + Amount p))) asset ps = Some m'"
      using Cons.prems by (auto split: option.splits)
    from Cons.IH[OF r] set_account_frame[OF False] show ?thesis
      by (blast intro: frame_eq_trans)
  qed
qed

lemma pop_portions_frame:
  "(pop_portions n m acc = Continue (ps, m') \<longrightarrow> frame_eq m m') \<and>
   (pop_portions n m acc = Return c m' \<longrightarrow> frame_eq m m')"
proof (induction n arbitrary: m acc)
  case 0
  then show ?case by auto
next
  case (Suc n)
  show ?case
  proof (cases "popPortion m")
    case None
    then show ?thesis by (simp add: pop_bind_def)
  next
    case (Some a)
    obtain p m1 where a: "a = (p, m1)" by (cases a)
    have fr: "frame_eq m m1" using Some a by (auto dest: popPortion_frame)
    have eq: "pop_portions (Suc n) m acc = pop_portions n m1 (acc @ [p])"
      using Some a by (simp add: pop_bind_def)
    show ?thesis
      unfolding eq using Suc.IH[of m1 "acc @ [p]"] fr by (blast intro: frame_eq_trans)
  qed
qed

lemma pop_fundings_frame:
  "(pop_fundings n asset m acc = Continue (fs, m') \<longrightarrow> frame_eq m m') \<and>
   (pop_fundings n asset m acc = Return c m' \<longrightarrow> frame_eq m m')"
proof (induction n arbitrary: m acc)
  case 0
  then show ?case by auto
next
  case (Suc n)
  show ?case
  proof (cases "popFunding m")
    case None
    then show ?thesis by (simp add: pop_bind_def)
  next
    case (Some a)
    obtain f m1 where a: "a = (f, m1)" by (cases a)
    have fr: "frame_eq m m1" using Some a by (auto dest: popFunding_frame)
    show ?thesis
    proof (cases "Asset f \<noteq> asset")
      case True
      then have eq: "pop_fundings (Suc n) asset m acc = Return EXIT_FAIL_INVALID m1"
        using Some a by (simp add: pop_bind_def)
      show ?thesis unfolding eq using fr by auto
    next
      case False
      then have eq: "pop_fundings (Suc n) asset m acc = pop_fundings n asset m1 (acc @ [f])"
        using Some a by (simp add: pop_bind_def)
      show ?thesis
        unfolding eq using Suc.IH[of m1 "acc @ [f]"] fr by (blast intro: frame_eq_trans)
    qed
  qed
qed

lemma frame_le_refl [simp]: "frame_le m m"
  by (simp add: frame_le_def)

lemma frame_eq_Stack [simp]: "frame_eq m (m\<lparr>Stack := s\<rparr>)"
  by (intro frame_eq_same) simp_all

lemma frame_eq_Printed [simp]: "frame_eq m (m\<lparr>Printed := s\<rparr>)"
  by (intro frame_eq_same) simp_all

lemma frame_eq_Postings [simp]: "frame_eq m (m\<lparr>Postings := s\<rparr>)"
  by (intro frame_eq_same) simp_all

lemma frame_eq_TxMeta [simp]: "frame_eq m (m\<lparr>TxMeta := s\<rparr>)"
  by (intro frame_eq_same) simp_all

lemma frame_le_push_P: "frame_le m (m\<lparr>Stack := s, P := P m + k\<rparr>)"
  by (intro frame_le_same) simp_all

lemma foldl_pushValue_frame: "frame_eq m (foldl (\<lambda>m x. pushValue m (g x)) m xs)"
proof (induction xs arbitrary: m)
  case Nil
  then show ?case by simp
next
  case (Cons x xs)
  show ?case
    using frame_eq_trans[OF pushValue_frame[of m "g x"] Cons.IH[of "pushValue m (g x)"]]
    by simp
qed

lemma exec_frame_simple:
  "step_frame m (exec ext OP_APUSH m)"
  "step_frame m (exec ext OP_IPUSH m)"
  "step_frame m (exec ext OP_FAIL m)"
  by (auto simp: step_frame_def Let_def intro!: frame_le_same split: option.splits)

lemma exec_frame_BUMP: "step_frame m (exec ext OP_BUMP m)"
  unfolding exec.simps
  by (rule step_frame_bind, erule pop_frames)
     (auto simp: step_frame_def Let_def intro!: frame_le_same)

lemma exec_frame_arith:
  "step_frame m (exec ext OP_IADD m)"
  "step_frame m (exec ext OP_ISUB m)"
  "step_frame m (exec ext OP_MONETARY_NEW m)"
  "step_frame m (exec ext OP_MONETARY_ADD m)"
  "step_frame m (exec ext OP_TX_META m)"
  unfolding exec.simps
  by ((rule step_frame_bind, erule pop_frames)+,
      (auto intro!: step_frame_Continue step_frame_Return frame_eq_le)[1])+

lemma exec_frame_one_pop:
  "step_frame m (exec ext OP_PRINT m)"
  "step_frame m (exec ext OP_ASSET m)"
  "step_frame m (exec ext OP_FUNDING_SUM m)"
  "step_frame m (exec ext OP_FUNDING_REVERSE m)"
  unfolding exec.simps
  by ((rule step_frame_bind, erule pop_frames)+,
      (auto intro!: step_frame_Continue step_frame_Return frame_eq_le
         intro: frame_eq_trans[OF pushValue_frame pushValue_frame]
         split: Value.splits sum.splits)[1])+


lemma exec_frame_MAKE_ALLOTMENT: "step_frame m (exec ext OP_MAKE_ALLOTMENT m)"
proof -
  have inner: "step_frame m1
     (if unat n > make_limit ext then Panic
      else (case pop_portions (unat n) m1 [] of
              Panic \<Rightarrow> Panic
            | Invalid_pop \<Rightarrow> Invalid_pop
            | Return c m' \<Rightarrow> Return c m'
            | Continue (portions, m2) \<Rightarrow>
                (case NewAllotment ext portions of
                   Inl err \<Rightarrow> Return EXIT_FAIL_INVALID m2
                 | Inr allotment \<Rightarrow> Continue (pushValue m2 (V_Allotment allotment)))))"
    for n m1
  proof (cases "pop_portions (unat n) m1 []")
    case (Return c m')
    then show ?thesis using pop_portions_frame[where n="unat n" and m=m1 and acc="[]" and c=c and m'=m']
      by (simp add: step_frame_def)
  next
    case (Continue a)
    obtain ps m2 where a: "a = (ps, m2)" by (cases a)
    have fr: "frame_eq m1 m2" using pop_portions_frame[where n="unat n" and m=m1 and acc="[]" and ps=ps and m'=m2]
        Continue a by simp
    have "frame_eq m1 (pushValue m2 v)" for v
      using frame_eq_trans[OF fr pushValue_frame] .
    then show ?thesis using Continue a fr
      by (auto simp: step_frame_def intro: frame_eq_le split: sum.splits)
  qed (simp_all add: step_frame_def)
  show ?thesis
    unfolding exec.simps by (rule step_frame_bind, erule pop_frames) (rule inner)
qed

lemma exec_frame_TAKE_ALL: "step_frame m (exec ext OP_TAKE_ALL m)"
  unfolding exec.simps
  by ((rule step_frame_bind, erule pop_frames)+,
      (auto intro!: step_frame_Continue step_frame_Return frame_eq_le
         dest!: withdrawAll_frame intro: frame_eq_trans[OF _ pushValue_frame]
         split: sum.splits)[1])

lemma exec_frame_TAKE:
  "step_frame m (exec ext OP_TAKE m)"
  "step_frame m (exec ext OP_TAKE_MAX m)"
  unfolding exec.simps
  by ((rule step_frame_bind, erule pop_frames)+,
      (auto intro!: step_frame_Continue step_frame_Return frame_eq_le
         intro: frame_eq_trans[OF pushValue_frame pushValue_frame]
         split: sum.splits prod.splits)[1])+

lemma exec_frame_ALLOC: "step_frame m (exec ext OP_ALLOC m)"
  unfolding exec.simps
  by ((rule step_frame_bind, erule pop_frames)+,
      (auto simp: Let_def intro!: step_frame_Continue frame_eq_le foldl_pushValue_frame)[1])

lemma exec_frame_REPAY: "step_frame m (exec ext OP_REPAY m)"
  unfolding exec.simps
  by ((rule step_frame_bind, erule pop_frames)+,
      (auto simp: repay_def step_frame_def intro!: frame_eq_le dest!: repay_loop_frame
         split: option.splits)[1])

lemma exec_frame_SEND: "step_frame m (exec ext OP_SEND m)"
  unfolding exec.simps
  by ((rule step_frame_bind, erule pop_frames)+,
      (auto simp: Let_def intro!: step_frame_Continue frame_eq_le
         intro: frame_eq_trans[OF credit_frame frame_eq_Postings])[1])

lemma exec_frame_FUNDING_ASSEMBLE: "step_frame m (exec ext OP_FUNDING_ASSEMBLE m)"
proof -
  have inner: "step_frame m1
     (let result = \<lparr>Asset = Asset first, Parts = [], Infinite = False\<rparr> in
      if sint n < 0 \<or> nat (sint n) > make_limit ext then Panic
      else (case pop_fundings (nat (sint n) - 1) (Asset result) m1 [first] of
              Panic \<Rightarrow> Panic
            | Invalid_pop \<Rightarrow> Invalid_pop
            | Return c m' \<Rightarrow> Return c m'
            | Continue (fundings_rev, m2) \<Rightarrow>
                (case concat_loop fundings_rev (nat (sint n)) 0 result of
                   Inl err \<Rightarrow> Return EXIT_FAIL_INVALID m2
                 | Inr result \<Rightarrow> Continue (pushValue m2 (V_Funding result)))))"
    for n :: u64 and m1 first
  proof (cases "pop_fundings (nat (sint n) - 1) (Asset first) m1 [first]")
    case (Return c m')
    then show ?thesis
      using pop_fundings_frame[where n="nat (sint n) - 1" and asset="Asset first" and m=m1
          and acc="[first]" and c=c and m'=m']
      by (simp add: step_frame_def Let_def)
  next
    case (Continue a)
    obtain fs m2 where a: "a = (fs, m2)" by (cases a)
    have fr: "frame_eq m1 m2"
      using pop_fundings_frame[where n="nat (sint n) - 1" and asset="Asset first" and m=m1
          and acc="[first]" and fs=fs and m'=m2] Continue a
      by simp
    have "frame_eq m1 (pushValue m2 v)" for v
      using frame_eq_trans[OF fr pushValue_frame] .
    then show ?thesis using Continue a fr
      by (auto simp: step_frame_def Let_def intro: frame_eq_le split: sum.splits)
  qed (simp_all add: step_frame_def Let_def)
  have outer: "step_frame m0
     (if sint n = 0 then Return EXIT_FAIL_INVALID m0
      else pop_bind (popFunding m0) (\<lambda>first m1.
        let result = \<lparr>Asset = Asset first, Parts = [], Infinite = False\<rparr> in
        if sint n < 0 \<or> nat (sint n) > make_limit ext then Panic
        else (case pop_fundings (nat (sint n) - 1) (Asset result) m1 [first] of
                Panic \<Rightarrow> Panic
              | Invalid_pop \<Rightarrow> Invalid_pop
              | Return c m' \<Rightarrow> Return c m'
              | Continue (fundings_rev, m2) \<Rightarrow>
                  (case concat_loop fundings_rev (nat (sint n)) 0 result of
                     Inl err \<Rightarrow> Return EXIT_FAIL_INVALID m2
                   | Inr result \<Rightarrow> Continue (pushValue m2 (V_Funding result))))))"
    for n :: u64 and m0
  proof (cases "sint n = 0")
    case True
    then show ?thesis by (simp add: step_frame_def)
  next
    case False
    then show ?thesis
      by (simp only: if_False) (rule step_frame_bind, erule pop_frames, rule inner)
  qed
  show ?thesis
    unfolding exec.simps by (rule step_frame_bind, erule pop_frames) (rule outer)
qed

lemma exec_frame: "step_frame m (exec ext opcode m)"
  by (cases opcode)
     (simp_all only: exec_frame_simple exec_frame_BUMP exec_frame_arith exec_frame_one_pop
        exec_frame_MAKE_ALLOTMENT exec_frame_TAKE_ALL exec_frame_TAKE exec_frame_ALLOC
        exec_frame_REPAY exec_frame_SEND exec_frame_FUNDING_ASSEMBLE)

section \<open>Execute\<close>

lemma tick_frame:
  assumes "tick ext m = Tick finished code m'"
  shows "Program m' = Program m \<and> (no_world_entry m \<longrightarrow> no_world_entry m') \<and>
         (\<not> finished \<longrightarrow> P m < P m' \<and> P m' < length (Instructions (Program m))) \<and>
         (finished \<and> P m' \<ge> length (Instructions (Program m)) \<longrightarrow> code = EXIT_OK)"
proof -
  have lt: "P m < length (Instructions (Program m))"
    using assms by (simp add: tick_def split: if_splits)
  define st where "st = (case decode_op ext (Instructions (Program m) ! P m) of
                 None \<Rightarrow> Return EXIT_FAIL_INVALID m
               | Some opcode \<Rightarrow> exec ext opcode m)"
  have sf: "step_frame m st"
  proof (cases "decode_op ext (Instructions (Program m) ! P m)")
    case None
    then show ?thesis by (simp add: st_def step_frame_def)
  next
    case (Some opcode)
    then show ?thesis using exec_frame[of m ext opcode] by (simp add: st_def)
  qed
  have t: "tick ext m = (case st of Panic \<Rightarrow> Tick_panic | Invalid_pop \<Rightarrow> Tick_invalid_pop
          | Return code m \<Rightarrow> Tick True code m | Continue m \<Rightarrow> after_switch m)"
    using lt by (simp add: tick_def st_def)
  show ?thesis
  proof (cases st)
    case Panic
    then show ?thesis using assms t by simp
  next
    case Invalid_pop
    then show ?thesis using assms t by simp
  next
    case (Return c m1)
    then have "finished" "code = c" "m' = m1" using assms t by simp_all
    moreover have "frame_eq m m1" using sf Return by (simp add: step_frame_def)
    ultimately show ?thesis using lt by (auto simp: frame_eq_def)
  next
    case (Continue m1)
    then have a: "after_switch m1 = Tick finished code m'" using assms t by simp
    have fr: "frame_le m m1" using sf Continue by (simp add: step_frame_def)
    have m': "m' = m1\<lparr>P := P m1 + 1\<rparr>"
      using a by (auto simp: after_switch_def Let_def split: if_splits)
    have nw: "no_world_entry m' = no_world_entry m1"
      unfolding m' by (rule no_world_entry_Balances) simp
    show ?thesis
      using a fr nw
      by (auto simp: after_switch_def Let_def frame_le_def split: if_splits)
  qed
qed

lemma Execute_loop_total: "\<exists>r. Execute_loop ext m = Some r"
proof (induction "length (Instructions (Program m)) - P m" arbitrary: m rule: less_induct)
  case less
  show ?case
  proof (cases "tick ext m")
    case Tick_panic
    then show ?thesis by (subst Execute_loop.simps) simp
  next
    case Tick_invalid_pop
    then show ?thesis by (subst Execute_loop.simps) simp
  next
    case (Tick finished code m')
    show ?thesis
    proof (cases finished)
      case True
      then show ?thesis using Tick by (subst Execute_loop.simps) simp
    next
      case False
      have "Program m' = Program m" "P m < P m'" "P m' < length (Instructions (Program m))"
        using tick_frame[OF Tick] False by simp_all
      then have "length (Instructions (Program m')) - P m' < length (Instructions (Program m)) - P m"
        by simp
      then obtain r where "Execute_loop ext m' = Some r" using less by blast
      then show ?thesis using Tick False by (subst Execute_loop.simps) simp
    qed
  qed
qed

lemma Execute_loop_steps: "steps_to ext m m1 \<Longrightarrow> Execute_loop ext m = Execute_loop ext m1"
proof (induction rule: steps_to.induct)
  case (steps_to_refl m)
  then show ?case by simp
next
  case (steps_to_tick m code m1 m2)
  have "Execute_loop ext m = Execute_loop ext m1"
    using steps_to_tick.hyps(1) by (subst Execute_loop.simps) simp
  then show ?case using steps_to_tick.IH by (rule trans)
qed

lemma steps_to_frame:
  "steps_to ext m m1 \<Longrightarrow>
   Program m1 = Program m \<and> (no_world_entry m \<longrightarrow> no_world_entry m1)"
proof (induction rule: steps_to.induct)
  case (steps_to_refl m)
  then show ?case by simp
next
  case (steps_to_tick m code m1 m2)
  then show ?case using tick_frame[OF steps_to_tick.hyps(1)] by simp
qed

lemma Execute_loop_exit:
  "Execute_loop ext m = Some (Run_exit code m2) \<Longrightarrow>
   \<exists>m1 c. steps_to ext m m1 \<and> tick ext m1 = Tick True c m2"
proof (induction "length (Instructions (Program m)) - P m" arbitrary: m rule: less_induct)
  case less
  show ?case
  proof (cases "tick ext m")
    case Tick_panic
    then have "Execute_loop ext m = Some Run_panic" by (subst Execute_loop.simps) simp
    then show ?thesis using less.prems by simp
  next
    case Tick_invalid_pop
    then have "Execute_loop ext m = Some Run_invalid_pop" by (subst Execute_loop.simps) simp
    then show ?thesis using less.prems by simp
  next
    case (Tick finished c m')
    show ?thesis
    proof (cases finished)
      case True
      have "Execute_loop ext m =
          (if length (Stack m') \<noteq> 0 then Some (Run_exit EXIT_FAIL_INVALID m')
           else Some (Run_exit c m'))"
        using Tick True by (subst Execute_loop.simps) simp
      then have "m2 = m'" using less.prems by (simp split: if_splits)
      then have "tick ext m = Tick True c m2" using Tick True by simp
      then show ?thesis using steps_to_refl[of ext m] by (intro exI conjI)
    next
      case False
      have "Program m' = Program m" "P m < P m'" "P m' < length (Instructions (Program m))"
        using tick_frame[OF Tick] False by simp_all
      then have d: "length (Instructions (Program m')) - P m' < length (Instructions (Program m)) - P m"
        by simp
      have "Execute_loop ext m = Execute_loop ext m'"
        using Tick False by (subst Execute_loop.simps) simp
      then have "Execute_loop ext m' = Some (Run_exit code m2)"
        using less.prems by simp
      then obtain m1 c' where s: "steps_to ext m' m1" and t: "tick ext m1 = Tick True c' m2"
        using less.hyps[OF d] by blast
      have t0: "tick ext m = Tick False c m'" using Tick False by simp
      have "steps_to ext m m1" using steps_to_tick[OF t0 s] .
      then show ?thesis using t by (intro exI conjI)
    qed
  qed
qed

lemma steps_to_snoc:
  "steps_to ext m m1 \<Longrightarrow> tick ext m1 = Tick False code m2 \<Longrightarrow> steps_to ext m m2"
proof (induction rule: steps_to.induct)
  case (steps_to_refl m)
  show ?case using steps_to_tick[OF steps_to_refl.prems steps_to.steps_to_refl] .
next
  case (steps_to_tick m c ma mb)
  have "steps_to ext ma m2" using steps_to_tick.IH steps_to_tick.prems by simp
  then show ?case using steps_to.steps_to_tick[OF steps_to_tick.hyps(1)] by simp
qed

lemma tick_FAIL:
  "P m < length (Instructions (Program m)) \<Longrightarrow>
   decode_op ext (Instructions (Program m) ! P m) = Some OP_FAIL \<Longrightarrow>
   tick ext m = Tick True EXIT_FAIL m"
  by (simp add: tick_def)

lemma tick_default:
  "P m < length (Instructions (Program m)) \<Longrightarrow>
   decode_op ext (Instructions (Program m) ! P m) = None \<Longrightarrow>
   tick ext m = Tick True EXIT_FAIL_INVALID m"
  by (simp add: tick_def)

text \<open>
  Claim C7. For every program and initial state that pass the two checks of
  \<open>Execute\<close>, and every tick that the loop of \<open>Execute\<close> reaches: if the tick
  finishes (by \<open>FAIL\<close>, by an error return of the switch, or by running past the last
  instruction) with a non-empty operand stack, \<open>Execute\<close> returns
  \<open>EXIT_FAIL_INVALID\<close>, whatever exit code the tick produced, and with an empty stack
  it returns the tick's code. Whenever the tick leaves the program counter past the end
  of the instructions, it has finished: \<open>Execute\<close> returns \<open>EXIT_OK\<close> when the
  stack is empty (and \<open>EXIT_FAIL_INVALID\<close> when it is not). A tick that does not finish
  leaves the program counter inside the instructions and the loop goes on from there.
  A tick on \<open>FAIL\<close> finishes with \<open>EXIT_FAIL\<close>, and a tick on a byte that is no
  opcode finishes with \<open>EXIT_FAIL_INVALID\<close>, the machine unchanged. By
  \<open>Execute_loop_total\<close> the loop always ends, and by \<open>Execute_loop_exit\<close> every
  exit code it returns arises from a finishing tick reached in this way.
\<close>

theorem Execute_exit_code:
  assumes "length (Resources m) = length (UnresolvedResources m)"
    and "Balances m \<noteq> None"
    and "steps_to ext m m1"
    and "tick ext m1 = Tick fin exit_code m2"
  shows "(fin \<and> Stack m2 \<noteq> [] \<longrightarrow>
            Execute ext m = Some (Inr (Run_exit EXIT_FAIL_INVALID m2))) \<and>
         (fin \<and> Stack m2 = [] \<longrightarrow> Execute ext m = Some (Inr (Run_exit exit_code m2))) \<and>
         (P m2 \<ge> length (Instructions (Program m2)) \<and> Stack m2 \<noteq> [] \<longrightarrow>
            Execute ext m = Some (Inr (Run_exit EXIT_FAIL_INVALID m2))) \<and>
         (P m2 \<ge> length (Instructions (Program m2)) \<and> Stack m2 = [] \<longrightarrow>
            Execute ext m = Some (Inr (Run_exit EXIT_OK m2))) \<and>
         (\<not> fin \<longrightarrow> P m2 < length (Instructions (Program m2)) \<and> steps_to ext m m2) \<and>
         (decode_op ext (Instructions (Program m1) ! P m1) = Some OP_FAIL \<longrightarrow>
            fin \<and> exit_code = EXIT_FAIL \<and> m2 = m1) \<and>
         (decode_op ext (Instructions (Program m1) ! P m1) = None \<longrightarrow>
            fin \<and> exit_code = EXIT_FAIL_INVALID \<and> m2 = m1)"
proof -
  have e: "Execute ext m = map_option Inr (Execute_loop ext m1)"
    using assms(1,2) Execute_loop_steps[OF assms(3)] by (auto simp: Execute_def)
  have l: "fin \<longrightarrow> Execute_loop ext m1 =
        Some (Run_exit (if length (Stack m2) \<noteq> 0 then EXIT_FAIL_INVALID else exit_code) m2)"
    using assms(4) by (subst Execute_loop.simps) simp
  have lt: "P m1 < length (Instructions (Program m1))"
    using assms(4) by (simp add: tick_def split: if_splits)
  have p: "Program m2 = Program m1" using tick_frame[OF assms(4)] by simp
  have nf: "\<not> fin \<longrightarrow> P m2 < length (Instructions (Program m2))"
    using tick_frame[OF assms(4)] p by simp
  have ok: "fin \<and> P m2 \<ge> length (Instructions (Program m2)) \<longrightarrow> exit_code = EXIT_OK"
    using tick_frame[OF assms(4)] p by simp
  have st: "\<not> fin \<longrightarrow> steps_to ext m m2"
    using steps_to_snoc[OF assms(3)] assms(4) by auto
  have 1: "fin \<and> Stack m2 \<noteq> [] \<longrightarrow>
            Execute ext m = Some (Inr (Run_exit EXIT_FAIL_INVALID m2))"
    using e l by auto
  have 2: "fin \<and> Stack m2 = [] \<longrightarrow> Execute ext m = Some (Inr (Run_exit exit_code m2))"
    using e l by auto
  have past: "P m2 \<ge> length (Instructions (Program m2)) \<longrightarrow> fin" using nf by auto
  have 3: "P m2 \<ge> length (Instructions (Program m2)) \<and> Stack m2 \<noteq> [] \<longrightarrow>
            Execute ext m = Some (Inr (Run_exit EXIT_FAIL_INVALID m2))"
    using 1 past by blast
  have 4: "P m2 \<ge> length (Instructions (Program m2)) \<and> Stack m2 = [] \<longrightarrow>
            Execute ext m = Some (Inr (Run_exit EXIT_OK m2))"
    using 2 past ok by metis
  have 5: "\<not> fin \<longrightarrow> P m2 < length (Instructions (Program m2)) \<and> steps_to ext m m2"
    using nf st by blast
  have 6: "decode_op ext (Instructions (Program m1) ! P m1) = Some OP_FAIL \<longrightarrow>
            fin \<and> exit_code = EXIT_FAIL \<and> m2 = m1"
    using tick_FAIL[OF lt, of ext] assms(4) by auto
  have 7: "decode_op ext (Instructions (Program m1) ! P m1) = None \<longrightarrow>
            fin \<and> exit_code = EXIT_FAIL_INVALID \<and> m2 = m1"
    using tick_default[OF lt, of ext] assms(4) by auto
  from 1 2 3 4 5 6 7 show ?thesis by (intro conjI)
qed

theorem Execute_exit_code_witness:
  "Execute sample_extern (sample_machine [2, 1, 0, 0, 0, 0, 0, 0, 0, 7] []) =
   Some (Inr (Run_exit EXIT_FAIL_INVALID
     ((sample_machine [2, 1, 0, 0, 0, 0, 0, 0, 0, 7] [])\<lparr>Stack := [V_Number 1], P := 9\<rparr>))) \<and>
   Execute sample_extern (sample_machine [2, 1, 0, 0, 0, 0, 0, 0, 0, 6] []) =
   Some (Inr (Run_exit EXIT_OK
     ((sample_machine [2, 1, 0, 0, 0, 0, 0, 0, 0, 6] [])
        \<lparr>Stack := [], Printed := [V_Number 1], P := 10\<rparr>)))"
proof -
  let ?m = "sample_machine [2, 1, 0, 0, 0, 0, 0, 0, 0, 7] []"
  let ?m1 = "?m\<lparr>Stack := [V_Number 1], P := 9\<rparr>"
  have t1: "tick sample_extern ?m = Tick False 0 ?m1"
    by (simp add: sample_machine_def sample_extern_def sample_decode_def tick_def
        after_switch_def Uint64_def)
  have t2: "tick sample_extern ?m1 = Tick True EXIT_FAIL ?m1"
    by (simp add: sample_machine_def sample_extern_def sample_decode_def tick_def)
  have s: "steps_to sample_extern ?m ?m1"
    using steps_to_tick[OF t1 steps_to_refl] .
  have r: "length (Resources ?m) = length (UnresolvedResources ?m)"
    by (simp add: sample_machine_def)
  have b: "Balances ?m \<noteq> None" by (simp add: sample_machine_def)
  have A: "Execute sample_extern ?m = Some (Inr (Run_exit EXIT_FAIL_INVALID ?m1))"
    using Execute_exit_code[OF r b s t2] by simp
  let ?n = "sample_machine [2, 1, 0, 0, 0, 0, 0, 0, 0, 6] []"
  let ?n1 = "?n\<lparr>Stack := [V_Number 1], P := 9\<rparr>"
  let ?n2 = "?n\<lparr>Stack := [], Printed := [V_Number 1], P := 10\<rparr>"
  have u1: "tick sample_extern ?n = Tick False 0 ?n1"
    by (simp add: sample_machine_def sample_extern_def sample_decode_def tick_def
        after_switch_def Uint64_def)
  have u2: "tick sample_extern ?n1 = Tick True EXIT_OK ?n2"
    by (simp add: sample_machine_def sample_extern_def sample_decode_def tick_def
        after_switch_def pop_defs)
  have s': "steps_to sample_extern ?n ?n1"
    using steps_to_tick[OF u1 steps_to_refl] .
  have r': "length (Resources ?n) = length (UnresolvedResources ?n)"
    by (simp add: sample_machine_def)
  have b': "Balances ?n \<noteq> None" by (simp add: sample_machine_def)
  have B: "Execute sample_extern ?n = Some (Inr (Run_exit EXIT_OK ?n2))"
    using Execute_exit_code[OF r' b' s' u2] by (simp add: sample_machine_def)
  from A B show ?thesis by simp
qed

section \<open>The account world\<close>

lemma resolve_assets_no_world:
  "account \<noteq> ''world'' \<Longrightarrow> no_world_so_far b reqs \<Longrightarrow>
   resolve_assets resp m account addrs b reqs = (ok, b', reqs') \<Longrightarrow>
   no_world_so_far b' reqs'"
proof (induction addrs arbitrary: b reqs)
  case Nil
  then show ?case by simp
next
  case (Cons addr addrs)
  show ?case
  proof (cases "getResource m addr")
    case None
    then show ?thesis using Cons.prems by (auto simp: no_world_so_far_def)
  next
    case (Some mon)
    show ?thesis
    proof (cases "GetAsset mon")
      case None
      then show ?thesis using Some Cons.prems by (auto simp: no_world_so_far_def)
    next
      case asset: (Some asset)
      show ?thesis
      proof (cases "resp (length reqs)")
        case None
        then show ?thesis using Some asset Cons.prems
          by (auto simp: no_world_so_far_def Let_def)
      next
        case (Some balance)
        let ?b = "b(account \<mapsto>
                     (case b account of None \<Rightarrow> Map.empty | Some acc \<Rightarrow> acc)(asset \<mapsto> balance))"
        let ?reqs = "reqs @ [Request account asset]"
        have inv: "no_world_so_far ?b ?reqs"
          using Cons.prems(1,2) by (auto simp: no_world_so_far_def)
        have "resolve_assets resp m account addrs ?b ?reqs = (ok, b', reqs')"
          using Cons.prems(3) \<open>getResource m addr = Some mon\<close> asset Some
          by (simp add: Let_def)
        then show ?thesis by (rule Cons.IH[OF Cons.prems(1) inv])
      qed
    qed
  qed
qed

lemma resolve_accounts_no_world:
  "no_world_so_far b reqs \<Longrightarrow>
   resolve_accounts resp m needed b reqs = (b', reqs') \<Longrightarrow>
   no_world_so_far b' reqs'"
proof (induction needed arbitrary: b reqs)
  case Nil
  then show ?case by simp
next
  case (Cons entry rest)
  obtain addr needed_assets where entry: "entry = (addr, needed_assets)" by (cases entry)
  show ?case
  proof (cases "getResource m addr")
    case None
    then show ?thesis using Cons.prems entry by (auto simp: no_world_so_far_def)
  next
    case (Some v)
    show ?thesis
    proof (cases "\<exists>account. v = V_Account account")
      case False
      then have "resolve_accounts resp m (entry # rest) b reqs =
          (b, reqs @ [Request_error ''incorrect program (resolve balances: not an account)''])"
        using Some entry by (cases v) auto
      then show ?thesis using Cons.prems by (auto simp: no_world_so_far_def)
    next
      case True
      then obtain account where v: "v = V_Account account" by blast
      show ?thesis
      proof (cases "account = ''world''")
        case True
        then have "resolve_accounts resp m rest b reqs = (b', reqs')"
          using Cons.prems(2) Some entry v by simp
        then show ?thesis by (rule Cons.IH[OF Cons.prems(1)])
      next
        case nw: False
        obtain ok b1 reqs1 where ra:
          "resolve_assets resp m account needed_assets (b(account \<mapsto> Map.empty)) reqs =
             (ok, b1, reqs1)"
          by (cases "resolve_assets resp m account needed_assets (b(account \<mapsto> Map.empty)) reqs")
        have "no_world_so_far (b(account \<mapsto> Map.empty)) reqs"
          using Cons.prems(1) nw by (auto simp: no_world_so_far_def)
        then have inv1: "no_world_so_far b1 reqs1"
          using resolve_assets_no_world[OF nw _ ra] by blast
        show ?thesis
        proof (cases ok)
          case True
          then have "resolve_accounts resp m rest b1 reqs1 = (b', reqs')"
            using Cons.prems(2) Some entry v nw ra by simp
          then show ?thesis by (rule Cons.IH[OF inv1])
        next
          case False
          then have "b' = b1" "reqs' = reqs1"
            using Cons.prems(2) Some entry v nw ra by simp_all
          then show ?thesis using inv1 by simp
        qed
      qed
    qed
  qed
qed

lemma ResolveBalances_no_world:
  assumes "ResolveBalances resp m = Inr (reqs, m')"
  shows "no_world_entry m' \<and> (\<forall>asset. Request ''world'' asset \<notin> set reqs)"
proof -
  obtain b where r: "resolve_accounts resp m (NeededBalances (Program m)) Map.empty [] = (b, reqs)"
    and m': "m' = m\<lparr>set_balance_called := True, Balances := Some b\<rparr>"
    using assms by (auto simp: ResolveBalances_def split: if_splits prod.splits)
  have "no_world_so_far Map.empty []" by (simp add: no_world_so_far_def)
  then have "no_world_so_far b reqs" using r by (rule resolve_accounts_no_world)
  then show ?thesis
    by (simp add: no_world_so_far_def m' no_world_entry_def lookup_account_def)
qed

lemma Execute_loop_no_world:
  assumes "no_world_entry m" and "Execute_loop ext m = Some (Run_exit code m')"
  shows "no_world_entry m'"
proof -
  obtain m1 c where s: "steps_to ext m m1" and t: "tick ext m1 = Tick True c m'"
    using Execute_loop_exit[OF assms(2)] by blast
  have "no_world_entry m1" using steps_to_frame[OF s] assms(1) by simp
  then show ?thesis using tick_frame[OF t] by simp
qed

lemma SEND_world:
  assumes "P m < length (Instructions (Program m))"
    and "decode_op ext (Instructions (Program m) ! P m) = Some OP_SEND"
    and "Stack m = s @ [V_Funding f, V_Account ''world'']"
  shows "tick ext m =
           after_switch (m\<lparr>Stack := s, Postings := Postings m @ send_postings ''world'' f\<rparr>)"
proof -
  have "exec ext OP_SEND m =
        Continue (m\<lparr>Stack := s, Postings := Postings m @ send_postings ''world'' f\<rparr>)"
    using assms(3) by (simp add: pop_defs butlast_append credit_def Let_def)
  then show ?thesis using assms(1,2) by (simp add: tick_exec del: exec.simps)
qed

lemma TAKE_ALL_world:
  assumes "P m < length (Instructions (Program m))"
    and "decode_op ext (Instructions (Program m) ! P m) = Some OP_TAKE_ALL"
    and "Stack m = s @ [V_Account ''world'', V_Asset asset]"
  shows "tick ext m =
           after_switch (m\<lparr>Stack := s @
             [V_Funding \<lparr>Asset = asset, Parts = [], Infinite = True\<rparr>]\<rparr>)"
proof -
  have "exec ext OP_TAKE_ALL m =
        Continue (m\<lparr>Stack := s @ [V_Funding \<lparr>Asset = asset, Parts = [], Infinite = True\<rparr>]\<rparr>)"
    using assms(3) by (simp add: pop_defs butlast_append withdrawAll_def pushValue_def)
  then show ?thesis using assms(1,2) by (simp add: tick_exec del: exec.simps)
qed

text \<open>
  Claim C8. The balances map never holds an entry for the account \<open>world\<close>:
  balance resolution leaves none and issues no request for \<open>world\<close>; a tick, any
  number of ticks and a whole run of the loop of \<open>Execute\<close> keep it that way;
  crediting \<open>world\<close> changes nothing, so \<open>SEND\<close> to \<open>world\<close> only records its
  postings; and \<open>withdrawAll\<close> of \<open>world\<close>, so \<open>TAKE_ALL\<close> on it, yields an infinite
  funding without parts and leaves the machine, its balances included, as it was.
\<close>

theorem world_has_no_balance:
  "(ResolveBalances resp m0 = Inr (reqs, m) \<longrightarrow>
      no_world_entry m \<and> (\<forall>asset. Request ''world'' asset \<notin> set reqs)) \<and>
   (no_world_entry m \<and> tick ext m = Tick finished code m' \<longrightarrow> no_world_entry m') \<and>
   (no_world_entry m \<and> steps_to ext m m' \<longrightarrow> no_world_entry m') \<and>
   (no_world_entry m \<and> Execute_loop ext m = Some (Run_exit code m') \<longrightarrow> no_world_entry m') \<and>
   credit m ''world'' f = m \<and>
   withdrawAll m ''world'' asset = Inr (\<lparr>Asset = asset, Parts = [], Infinite = True\<rparr>, m) \<and>
   (P m < length (Instructions (Program m)) \<and>
    decode_op ext (Instructions (Program m) ! P m) = Some OP_SEND \<and>
    Stack m = s @ [V_Funding f, V_Account ''world''] \<longrightarrow>
      tick ext m =
        after_switch (m\<lparr>Stack := s, Postings := Postings m @ send_postings ''world'' f\<rparr>)) \<and>
   (P m < length (Instructions (Program m)) \<and>
    decode_op ext (Instructions (Program m) ! P m) = Some OP_TAKE_ALL \<and>
    Stack m = s @ [V_Account ''world'', V_Asset asset] \<longrightarrow>
      tick ext m =
        after_switch (m\<lparr>Stack := s @
          [V_Funding \<lparr>Asset = asset, Parts = [], Infinite = True\<rparr>]\<rparr>))"
proof -
  have 1: "ResolveBalances resp m0 = Inr (reqs, m) \<longrightarrow>
      no_world_entry m \<and> (\<forall>asset. Request ''world'' asset \<notin> set reqs)"
    using ResolveBalances_no_world[of resp m0 reqs m] by blast
  have 2: "no_world_entry m \<and> tick ext m = Tick finished code m' \<longrightarrow> no_world_entry m'"
    using tick_frame[of ext m finished code m'] by blast
  have 3: "no_world_entry m \<and> steps_to ext m m' \<longrightarrow> no_world_entry m'"
    using steps_to_frame[of ext m m'] by blast
  have 4: "no_world_entry m \<and> Execute_loop ext m = Some (Run_exit code m') \<longrightarrow> no_world_entry m'"
    using Execute_loop_no_world[of m ext code m'] by blast
  have 5: "credit m ''world'' f = m" by (simp add: credit_def)
  have 6: "withdrawAll m ''world'' asset = Inr (\<lparr>Asset = asset, Parts = [], Infinite = True\<rparr>, m)"
    by (simp add: withdrawAll_def)
  from 1 2 3 4 5 6 SEND_world[of m ext s f] TAKE_ALL_world[of m ext s asset]
  show ?thesis by (intro conjI impI) blast+
qed

theorem world_has_no_balance_witness:
  "ResolveBalances (\<lambda>k. Some 100) sample_unresolved =
     Inr ([Request ''alice'' ''EUR''],
          sample_unresolved\<lparr>set_balance_called := True,
            Balances := Some [''alice'' \<mapsto> [''EUR'' \<mapsto> 100]]\<rparr>) \<and>
   no_world_entry
     (sample_unresolved\<lparr>set_balance_called := True,
        Balances := Some [''alice'' \<mapsto> [''EUR'' \<mapsto> 100]]\<rparr>)"
proof -
  have r: "ResolveBalances (\<lambda>k. Some 100) sample_unresolved =
     Inr ([Request ''alice'' ''EUR''],
          sample_unresolved\<lparr>set_balance_called := True,
            Balances := Some [''alice'' \<mapsto> [''EUR'' \<mapsto> 100]]\<rparr>)"
    by (simp add: ResolveBalances_def sample_unresolved_def sample_machine_def
        getResource_def GetAsset_def)
  from world_has_no_balance[of "\<lambda>k. Some 100" sample_unresolved "[Request ''alice'' ''EUR'']"
      "sample_unresolved\<lparr>set_balance_called := True,
         Balances := Some [''alice'' \<mapsto> [''EUR'' \<mapsto> 100]]\<rparr>"] r
  show ?thesis by blast
qed

end
